theory Spec2Isabelle
  imports Complex_Main "HOL-Library.Word"
begin

section \<open>JavaScript values used by the converter\<close>

text \<open>
  The repository holds two variants of the converter: the script served from
  \<^verbatim>\<open>public/conv2ascii.js\<close> (definitions without suffix) and a module variant with a
  default export (definitions with suffix \<open>_m\<close>). Both are embedded here.

  JavaScript numbers are IEEE doubles. In the glyph mapping of the public script and in the
  dimensions of the grid, where \<^verbatim>\<open>Math.round\<close> turns a result into an integer that selects
  a glyph or sizes the grid, every operation is rounded to a double, by \<open>double\<close> below.
  In the pixel adjustment stage, and in the mean and the index of the module, the operations
  are taken over the real numbers, exactly; for the module the index so obtained is the one
  that the doubles give when the ramp has fewer than 216 characters. The places where doubles
  leave the reals (a division by zero, giving \<^verbatim>\<open>Infinity\<close> or \<^verbatim>\<open>NaN\<close>) are named where they
  occur, and the theorems that depend on them exclude them by a hypothesis.
\<close>

function binade :: "real \<Rightarrow> int" where
  \<comment> \<open>The binary exponent of a positive number: \<open>2 powi binade x \<le> x < 2 powi (binade x + 1)\<close>.\<close>
  "binade x =
     (if x \<le> 0 then 0
      else if 2 \<le> x then binade (x / 2) + 1
      else if x < 1 then binade (x * 2) - 1
      else 0)"
  by pat_completeness auto
termination
proof (relation "measure (\<lambda>x. if 1 \<le> x then nat \<lfloor>x\<rfloor> else nat \<lceil>1 / x\<rceil>)")
  show "wf (measure (\<lambda>x. if 1 \<le> x then nat \<lfloor>x\<rfloor> else nat \<lceil>1 / x\<rceil>))" by simp
next
  fix x :: real
  assume a: "\<not> x \<le> 0" "2 \<le> x"
  have "\<lfloor>x / 2\<rfloor> < \<lfloor>x\<rfloor>" using a by linarith
  moreover have "0 < \<lfloor>x\<rfloor>" using a by linarith
  ultimately show "(x / 2, x) \<in> measure (\<lambda>x. if 1 \<le> x then nat \<lfloor>x\<rfloor> else nat \<lceil>1 / x\<rceil>)"
    using a by auto
next
  fix x :: real
  assume a: "\<not> x \<le> 0" "\<not> 2 \<le> x" "x < 1"
  have x: "0 < x" using a by simp
  have i: "1 < 1 / x" using a x by simp
  show "(x * 2, x) \<in> measure (\<lambda>x. if 1 \<le> x then nat \<lfloor>x\<rfloor> else nat \<lceil>1 / x\<rceil>)"
  proof (cases "1 \<le> x * 2")
    case True
    then have "\<lfloor>x * 2\<rfloor> = 1" using a by linarith
    moreover have "2 \<le> \<lceil>1 / x\<rceil>" using i by linarith
    ultimately show ?thesis using True a by auto
  next
    case False
    have "1 / (x * 2) = (1 / x) / 2" by simp
    moreover have "2 < 1 / x" using False x by (simp add: field_simps)
    ultimately have "\<lceil>1 / (x * 2)\<rceil> < \<lceil>1 / x\<rceil>" by linarith
    moreover have "0 < \<lceil>1 / x\<rceil>" using i by linarith
    ultimately show ?thesis using False a by auto
  qed
qed

declare binade.simps [simp del]

definition roundHalfEven :: "real \<Rightarrow> int" where
  \<comment> \<open>The nearest integer, a tie going to the even one.\<close>
  "roundHalfEven x =
     (let f = \<lfloor>x\<rfloor>
      in if x < real_of_int f + 1 / 2 then f
         else if real_of_int f + 1 / 2 < x then f + 1
         else if even f then f else f + 1)"

definition double :: "real \<Rightarrow> real" where
  \<comment> \<open>The double nearest to a real number, a tie going to the even significand: the result
      of every arithmetic operation and of reading a decimal literal. The significand has
      53 bits; below \<open>2 powi - 1022\<close> the spacing stays that of the smallest binade. A
      magnitude of \<open>2 ^ 1024\<close> or more, which a double gives as \<^verbatim>\<open>Infinity\<close>, is outside the
      model.\<close>
  "double x =
     (let e = max (binade \<bar>x\<bar>) (- 1022); ulp = 2 powi (e - 52)
      in real_of_int (roundHalfEven (x / ulp)) * ulp)"

definition Math_round :: "real \<Rightarrow> int" where
  \<comment> \<open>\<^verbatim>\<open>Math.round\<close>: the nearest integer, a tie going up.\<close>
  "Math_round x = \<lfloor>x + 1 / 2\<rfloor>"

definition Math_floor :: "real \<Rightarrow> int" where
  "Math_floor x = \<lfloor>x\<rfloor>"

definition jsRem :: "real \<Rightarrow> real \<Rightarrow> real" where
  \<comment> \<open>The operator \<^verbatim>\<open>%\<close>: the quotient is truncated towards zero, so the result has the
      sign of the dividend.\<close>
  "jsRem x y = x - y * of_int (if 0 \<le> x / y then \<lfloor>x / y\<rfloor> else \<lceil>x / y\<rceil>)"

definition toUint8Clamp :: "real \<Rightarrow> 8 word" where
  \<comment> \<open>The conversion made by a store into a \<^verbatim>\<open>Uint8ClampedArray\<close>: clamp to 0..255, then
      round to the nearest integer, a tie going to the even one.\<close>
  "toUint8Clamp v =
     (let c = min 255 (max 0 v); f = \<lfloor>c\<rfloor>
      in of_int (if real_of_int f + 1 / 2 < c then f + 1
                 else if c < real_of_int f + 1 / 2 then f
                 else if even f then f else f + 1))"

definition byteVal :: "8 word \<Rightarrow> real" where
  \<comment> \<open>The number read from an element of a \<^verbatim>\<open>Uint8ClampedArray\<close>.\<close>
  "byteVal w = real (unat w)"

type_synonym jsstring = "16 word list"
  \<comment> \<open>A JavaScript string: its sequence of UTF-16 code units.\<close>

definition ustr :: "string \<Rightarrow> jsstring" where
  "ustr cs = map of_char cs"

definition newline :: jsstring where
  "newline = [10]"

definition undefinedText :: jsstring where
  \<comment> \<open>What \<^verbatim>\<open>+=\<close> appends to a string when the right-hand side is \<^verbatim>\<open>undefined\<close>.\<close>
  "undefinedText = ustr ''undefined''"

section \<open>Settings\<close>

definition CHAR_SETS_standard :: jsstring where
  "CHAR_SETS_standard = [0x2588, 0x2593, 0x2592, 0x2591]"

definition CHAR_SETS_extended :: jsstring where
  "CHAR_SETS_extended = ustr ''@%#*+=-:. ''"

definition CHAR_SETS_blocks :: jsstring where
  "CHAR_SETS_blocks =
     [0x2588, 0x2593, 0x2592, 0x2591, 0x2584, 0x2580, 0x25A0, 0x25A1, 0x25AA, 0x25AB]"

definition CHAR_SETS_simple :: jsstring where
  "CHAR_SETS_simple = ustr ''#. ''"

datatype ramp = Chars jsstring | Inherited

text \<open>
  The value of the variable \<^verbatim>\<open>chars\<close> of the module: a string, or a value that the object
  \<^verbatim>\<open>CHAR_SETS\<close> inherits from \<^verbatim>\<open>Object.prototype\<close> (a function, or for the key \<^verbatim>\<open>__proto__\<close>
  the prototype itself). Such a value is truthy, and a read \<^verbatim>\<open>chars[i]\<close> of it is
  \<^verbatim>\<open>undefined\<close> whatever \<open>i\<close> is.
\<close>

definition inheritedKeys :: "string list" where
  \<comment> \<open>The properties of \<^verbatim>\<open>Object.prototype\<close>.\<close>
  "inheritedKeys =
     [''constructor'', ''hasOwnProperty'', ''isPrototypeOf'', ''propertyIsEnumerable'',
      ''toLocaleString'', ''toString'', ''valueOf'', ''__proto__'', ''__defineGetter__'',
      ''__defineSetter__'', ''__lookupGetter__'', ''__lookupSetter__'']"

definition CHAR_SETS :: "string \<Rightarrow> ramp option" where
  \<comment> \<open>The object \<^verbatim>\<open>CHAR_SETS\<close> read at a key; \<open>None\<close> is \<^verbatim>\<open>undefined\<close>.\<close>
  "CHAR_SETS k =
     (if k = ''standard'' then Some (Chars CHAR_SETS_standard)
      else if k = ''extended'' then Some (Chars CHAR_SETS_extended)
      else if k = ''blocks'' then Some (Chars CHAR_SETS_blocks)
      else if k = ''simple'' then Some (Chars CHAR_SETS_simple)
      else if k \<in> set inheritedKeys then Some Inherited
      else None)"

record settings =
  width :: int
  height :: int
  brightness :: int
  contrast :: int
  saturation :: int
  grayscale :: int
  invert :: int
  hue :: int
  sepia :: int
  colorized :: bool
  charSet :: jsstring
  customChars :: jsstring
  stretchWidth :: int
  stretchHeight :: int
  charSetType :: string
  highResolutionConfirmed :: bool

text \<open>
  The record is the object \<^verbatim>\<open>{ ...defaults, ...options }\<close>. The field \<open>charSetType\<close> is read
  by the module variant only (\<open>''''\<close> when the option is absent), and
  \<open>highResolutionConfirmed\<close> is the option \<^verbatim>\<open>_highResolutionConfirmed\<close>.
\<close>

definition defaults :: settings where
  "defaults =
     \<lparr> width = 100, height = 0, brightness = 100, contrast = 100, saturation = 100,
       grayscale = 0, invert = 0, hue = 0, sepia = 0, colorized = False,
       charSet = CHAR_SETS_standard, customChars = [], stretchWidth = 100,
       stretchHeight = 100, charSetType = [], highResolutionConfirmed = False \<rparr>"

section \<open>Image source and conversion result\<close>

datatype error = LoadError | CanvasError | RangeError

type_synonym color = "8 word option \<times> 8 word option \<times> 8 word option"

record imageSource =
  loads :: bool
  naturalWidth :: nat
  naturalHeight :: nat
  canvasData :: "int \<Rightarrow> int \<Rightarrow> error + 8 word list"
  createAsciiImage :: "jsstring \<Rightarrow> bool \<Rightarrow> color option list list \<Rightarrow> error + jsstring"
  createAsciiImage_m ::
    "jsstring \<Rightarrow> int \<Rightarrow> int \<Rightarrow> bool \<Rightarrow> color option list list \<Rightarrow> error + jsstring"

text \<open>
  The image and the browser around one conversion. \<open>loads\<close> is false for a URL whose load
  fails, which rejects the conversion with \<^verbatim>\<open>Failed to load image\<close> (\<open>LoadError\<close>); it is true
  for an image element and for a URL that loads.

  The canvas is a collaborator of the converter: \<open>canvasData img w h\<close> is the array
  \<^verbatim>\<open>ctx.getImageData(0, 0, w, h).data\<close> read after \<^verbatim>\<open>ctx.drawImage(img, 0, 0, w, h)\<close> on a canvas
  of that size, or the exception that the canvas raises (\<open>CanvasError\<close>). An image whose
  \<open>naturalWidth\<close> is 0 makes the aspect ratio a division by zero, which is outside the
  model.

  \<open>createAsciiImage\<close> is the function of that name of the public script and
  \<open>createAsciiImage_m\<close> that of the module: each draws the text on a new canvas and returns
  \<^verbatim>\<open>canvas.toDataURL(...)\<close>, or throws what the canvas throws. What the canvas draws is not
  modelled; the arguments are what the body of the function reads: the text, of the settings
  \<^verbatim>\<open>colorized\<close> (and in the module \<^verbatim>\<open>width\<close> and \<^verbatim>\<open>height\<close>), and the colour map.
\<close>

record conversionResult =
  resultText :: jsstring
  resultImage :: jsstring

text \<open>
  The object returned: \<open>resultText\<close> is its field \<^verbatim>\<open>text\<close> and \<open>resultImage\<close> its field
  \<^verbatim>\<open>image\<close>.
\<close>

section \<open>Pixel adjustment stage of \<^verbatim>\<open>public/conv2ascii.js\<close>\<close>

type_synonym rgb = "real \<times> real \<times> real"

definition truncate :: "real \<Rightarrow> real" where
  "truncate v = min 255 (max 0 v)"

definition rgbToHsl :: "real \<Rightarrow> real \<Rightarrow> real \<Rightarrow> real \<times> real \<times> real" where
  "rgbToHsl r0 g0 b0 =
     (let r = r0 / 255; g = g0 / 255; b = b0 / 255;
          mx = max (max r g) b; mn = min (min r g) b;
          l = (mx + mn) / 2
      in if mx = mn then (0, 0, l)
         else
           let d = mx - mn;
               s = (if l > 1 / 2 then d / (2 - mx - mn) else d / (mx + mn));
               h = (if mx = r then (g - b) / d + (if g < b then 6 else 0)
                    else if mx = g then (b - r) / d + 2
                    else (r - g) / d + 4)
           in (h / 6, s, l))"

definition hue2rgb :: "real \<Rightarrow> real \<Rightarrow> real \<Rightarrow> real" where
  "hue2rgb p q t0 =
     (let t1 = (if t0 < 0 then t0 + 1 else t0);
          t = (if t1 > 1 then t1 - 1 else t1)
      in if t < 1 / 6 then p + (q - p) * 6 * t
         else if t < 1 / 2 then q
         else if t < 2 / 3 then p + (q - p) * (2 / 3 - t) * 6
         else p)"

definition hslToRgb :: "real \<Rightarrow> real \<Rightarrow> real \<Rightarrow> rgb" where
  "hslToRgb h s l =
     (let (r, g, b) =
            (if s = 0 then (l, l, l)
             else
               let q = (if l < 1 / 2 then l * (1 + s) else l + s - l * s);
                   p = 2 * l - q
               in (hue2rgb p q (h + 1 / 3), hue2rgb p q h, hue2rgb p q (h - 1 / 3)))
      in (truncate (r * 255), truncate (g * 255), truncate (b * 255)))"

definition contrastFactor :: "settings \<Rightarrow> real" where
  \<comment> \<open>At \<open>contrast = 25900\<close> the divisor is 0 and JavaScript computes \<^verbatim>\<open>Infinity\<close>; the
      theorems about values computed with this factor exclude that setting.\<close>
  "contrastFactor s =
     (259 * (real_of_int (contrast s) / 100 + 255)) /
     (255 * (259 - real_of_int (contrast s) / 100))"

text \<open>
  The body of the loop of \<^verbatim>\<open>applyImageAdjustments\<close> is a sequence of seven blocks, each
  reading and assigning the variables \<^verbatim>\<open>r\<close>, \<^verbatim>\<open>g\<close>, \<^verbatim>\<open>b\<close>. Each block is a function on the triple;
  \<open>adjustPixel\<close> runs them in the order in which the source has them.
\<close>

definition applyBrightness :: "settings \<Rightarrow> rgb \<Rightarrow> rgb" where
  "applyBrightness s = (\<lambda>(r, g, b).
     if brightness s \<noteq> 100 then
       let factor = real_of_int (brightness s) / 100
       in (truncate (r * factor), truncate (g * factor), truncate (b * factor))
     else (r, g, b))"

definition applyContrast :: "settings \<Rightarrow> rgb \<Rightarrow> rgb" where
  "applyContrast s = (\<lambda>(r, g, b).
     if contrast s \<noteq> 100 then
       (truncate (contrastFactor s * (r - 128) + 128),
        truncate (contrastFactor s * (g - 128) + 128),
        truncate (contrastFactor s * (b - 128) + 128))
     else (r, g, b))"

definition applySaturation :: "settings \<Rightarrow> rgb \<Rightarrow> rgb" where
  "applySaturation s = (\<lambda>(r, g, b).
     if saturation s \<noteq> 100 then
       let factor = real_of_int (saturation s) / 100;
           gray = 0.2989 * r + 0.5870 * g + 0.1140 * b
       in (truncate (gray + (r - gray) * factor),
           truncate (gray + (g - gray) * factor),
           truncate (gray + (b - gray) * factor))
     else (r, g, b))"

definition applyGrayscale :: "settings \<Rightarrow> rgb \<Rightarrow> rgb" where
  "applyGrayscale s = (\<lambda>(r, g, b).
     if grayscale s > 0 then
       let gray = 0.2989 * r + 0.5870 * g + 0.1140 * b;
           factor = real_of_int (grayscale s) / 100
       in (truncate (r * (1 - factor) + gray * factor),
           truncate (g * (1 - factor) + gray * factor),
           truncate (b * (1 - factor) + gray * factor))
     else (r, g, b))"

definition applyInvert :: "settings \<Rightarrow> rgb \<Rightarrow> rgb" where
  "applyInvert s = (\<lambda>(r, g, b).
     if invert s > 0 then
       let factor = real_of_int (invert s) / 100
       in (truncate (r * (1 - factor) + (255 - r) * factor),
           truncate (g * (1 - factor) + (255 - g) * factor),
           truncate (b * (1 - factor) + (255 - b) * factor))
     else (r, g, b))"

definition applySepia :: "settings \<Rightarrow> rgb \<Rightarrow> rgb" where
  "applySepia s = (\<lambda>(r, g, b).
     if sepia s > 0 then
       let factor = real_of_int (sepia s) / 100;
           sepiaR = 0.393 * r + 0.769 * g + 0.189 * b;
           sepiaG = 0.349 * r + 0.686 * g + 0.168 * b;
           sepiaB = 0.272 * r + 0.534 * g + 0.131 * b
       in (truncate (r * (1 - factor) + sepiaR * factor),
           truncate (g * (1 - factor) + sepiaG * factor),
           truncate (b * (1 - factor) + sepiaB * factor))
     else (r, g, b))"

definition applyHue :: "settings \<Rightarrow> rgb \<Rightarrow> rgb" where
  "applyHue s = (\<lambda>(r, g, b).
     if hue s \<noteq> 0 then
       let (h, sat, l) = rgbToHsl r g b;
           newHue = jsRem (h + real_of_int (hue s) / 360) 1
       in hslToRgb newHue sat l
     else (r, g, b))"

definition adjustPixel :: "settings \<Rightarrow> rgb \<Rightarrow> rgb" where
  \<comment> \<open>From the three reads at the head of the loop body to the values that are stored.\<close>
  "adjustPixel s p0 =
     (let p1 = applyBrightness s p0;
          p2 = applyContrast s p1;
          p3 = applySaturation s p2;
          p4 = applyGrayscale s p3;
          p5 = applyInvert s p4;
          p6 = applySepia s p5
      in applyHue s p6)"

function applyLoop :: "settings \<Rightarrow> nat \<Rightarrow> 8 word list \<Rightarrow> 8 word list" where
  "applyLoop s i pixels =
     (if i < length pixels then
        (case adjustPixel s (byteVal (pixels ! i), byteVal (pixels ! (i + 1)),
                             byteVal (pixels ! (i + 2))) of
           (r, g, b) \<Rightarrow>
             applyLoop s (i + 4)
               (pixels[i := toUint8Clamp r, i + 1 := toUint8Clamp g, i + 2 := toUint8Clamp b]))
      else pixels)"
  by pat_completeness auto
termination
  by (relation "measure (\<lambda>(s, i, pixels). length pixels - i)") auto

declare applyLoop.simps [simp del]

definition applyImageAdjustments :: "settings \<Rightarrow> 8 word list \<Rightarrow> 8 word list" where
  \<comment> \<open>The array is changed in place; the model returns the array after the call. The data
      of an \<^verbatim>\<open>ImageData\<close> has four entries for each pixel, so the reads at \<open>i + 1\<close> and
      \<open>i + 2\<close> are in range whenever \<open>i\<close> is; a store out of range changes nothing, in a
      typed array as in \<open>list_update\<close>.\<close>
  "applyImageAdjustments s pixels = applyLoop s 0 pixels"

section \<open>Pixel adjustment stage of the module variant\<close>

definition rgbToHsl_m :: "real \<Rightarrow> real \<Rightarrow> real \<Rightarrow> real \<times> real \<times> real" where
  \<comment> \<open>Hue in degrees, saturation and lightness in percent.\<close>
  "rgbToHsl_m r0 g0 b0 =
     (let r = r0 / 255; g = g0 / 255; b = b0 / 255;
          mx = max (max r g) b; mn = min (min r g) b;
          l = (mx + mn) / 2
      in if mx = mn then (0, 0 * 100, l * 100)
         else
           let d = mx - mn;
               s = (if l > 1 / 2 then d / (2 - mx - mn) else d / (mx + mn));
               h = (if mx = r then (g - b) / d + (if g < b then 6 else 0)
                    else if mx = g then (b - r) / d + 2
                    else (r - g) / d + 4)
           in (h * 60, s * 100, l * 100))"

definition hslToRgb_m :: "real \<Rightarrow> real \<Rightarrow> real \<Rightarrow> rgb" where
  "hslToRgb_m h s0 l0 =
     (let s = s0 / 100; l = l0 / 100
      in if s = 0 then
           (let v = real_of_int (Math_round (l * 255)) in (v, v, v))
         else
           let q = (if l < 1 / 2 then l * (1 + s) else l + s - l * s);
               p = 2 * l - q;
               r = hue2rgb p q (jsRem (h / 360 + 1 / 3) 1);
               g = hue2rgb p q (jsRem (h / 360) 1);
               b = hue2rgb p q (jsRem (h / 360 - 1 / 3) 1)
           in (real_of_int (Math_round (r * 255)), real_of_int (Math_round (g * 255)),
               real_of_int (Math_round (b * 255))))"

text \<open>
  The module computes its factors before the loop; each block below starts with the
  factor it uses.
\<close>

definition applyBrightness_m :: "settings \<Rightarrow> rgb \<Rightarrow> rgb" where
  "applyBrightness_m s = (\<lambda>(r, g, b).
     let brightness' = (real_of_int (brightness s) - 100) * 2.55
     in (truncate (r + brightness'), truncate (g + brightness'), truncate (b + brightness')))"

definition applyContrast_m :: "settings \<Rightarrow> rgb \<Rightarrow> rgb" where
  "applyContrast_m s = (\<lambda>(r, g, b).
     let contrast' = real_of_int (contrast s) / 100
     in (truncate (((r / 255 - 0.5) * contrast' + 0.5) * 255),
         truncate (((g / 255 - 0.5) * contrast' + 0.5) * 255),
         truncate (((b / 255 - 0.5) * contrast' + 0.5) * 255)))"

definition applySaturation_m :: "settings \<Rightarrow> rgb \<Rightarrow> rgb" where
  "applySaturation_m s = (\<lambda>(r, g, b).
     let saturation' = real_of_int (saturation s) / 100;
         gray = 0.2989 * r + 0.5870 * g + 0.1140 * b
     in (truncate (gray + saturation' * (r - gray)),
         truncate (gray + saturation' * (g - gray)),
         truncate (gray + saturation' * (b - gray))))"

definition applyGrayscale_m :: "settings \<Rightarrow> rgb \<Rightarrow> rgb" where
  "applyGrayscale_m s = (\<lambda>(r, g, b).
     let grayscaleLevel = real_of_int (grayscale s) / 100
     in if grayscaleLevel > 0 then
          let grayPixel = 0.2989 * r + 0.5870 * g + 0.1140 * b
          in (truncate (r * (1 - grayscaleLevel) + grayPixel * grayscaleLevel),
              truncate (g * (1 - grayscaleLevel) + grayPixel * grayscaleLevel),
              truncate (b * (1 - grayscaleLevel) + grayPixel * grayscaleLevel))
        else (r, g, b))"

definition applyInvert_m :: "settings \<Rightarrow> rgb \<Rightarrow> rgb" where
  "applyInvert_m s = (\<lambda>(r, g, b).
     let invertLevel = real_of_int (invert s) / 100
     in if invertLevel > 0 then
          (truncate (r * (1 - invertLevel) + (255 - r) * invertLevel),
           truncate (g * (1 - invertLevel) + (255 - g) * invertLevel),
           truncate (b * (1 - invertLevel) + (255 - b) * invertLevel))
        else (r, g, b))"

definition applyHue_m :: "settings \<Rightarrow> rgb \<Rightarrow> rgb" where
  "applyHue_m s = (\<lambda>(r, g, b).
     let hueRotation = real_of_int (hue s) * 3.6
     in if hueRotation \<noteq> 0 then
          let (h0, sat, l) = rgbToHsl_m r g b;
              h1 = jsRem (h0 + hueRotation) 360;
              h = (if h1 < 0 then h1 + 360 else h1)
          in hslToRgb_m h sat l
        else (r, g, b))"

definition applySepia_m :: "settings \<Rightarrow> rgb \<Rightarrow> rgb" where
  "applySepia_m s = (\<lambda>(r, g, b).
     let sepiaLevel = real_of_int (sepia s) / 100
     in if sepiaLevel > 0 then
          let sepiaR = 0.393 * r + 0.769 * g + 0.189 * b;
              sepiaG = 0.349 * r + 0.686 * g + 0.168 * b;
              sepiaB = 0.272 * r + 0.534 * g + 0.131 * b
          in (truncate (r * (1 - sepiaLevel) + sepiaR * sepiaLevel),
              truncate (g * (1 - sepiaLevel) + sepiaG * sepiaLevel),
              truncate (b * (1 - sepiaLevel) + sepiaB * sepiaLevel))
        else (r, g, b))"

definition adjustPixel_m :: "settings \<Rightarrow> rgb \<Rightarrow> rgb" where
  "adjustPixel_m s p0 =
     (let p1 = applyBrightness_m s p0;
          p2 = applyContrast_m s p1;
          p3 = applySaturation_m s p2;
          p4 = applyGrayscale_m s p3;
          p5 = applyInvert_m s p4;
          p6 = applyHue_m s p5
      in applySepia_m s p6)"

function applyLoop_m :: "settings \<Rightarrow> nat \<Rightarrow> 8 word list \<Rightarrow> 8 word list" where
  "applyLoop_m s i pixels =
     (if i < length pixels then
        (case adjustPixel_m s (byteVal (pixels ! i), byteVal (pixels ! (i + 1)),
                               byteVal (pixels ! (i + 2))) of
           (r, g, b) \<Rightarrow>
             applyLoop_m s (i + 4)
               (pixels[i := toUint8Clamp r, i + 1 := toUint8Clamp g, i + 2 := toUint8Clamp b]))
      else pixels)"
  by pat_completeness auto
termination
  by (relation "measure (\<lambda>(s, i, pixels). length pixels - i)") auto

declare applyLoop_m.simps [simp del]

definition applyImageAdjustments_m :: "settings \<Rightarrow> 8 word list \<Rightarrow> 8 word list" where
  "applyImageAdjustments_m s pixels = applyLoop_m s 0 pixels"

section \<open>Glyph mapping stage\<close>

definition rd :: "8 word list \<Rightarrow> nat \<Rightarrow> 8 word option" where
  \<comment> \<open>A read of a typed array; \<open>None\<close> is \<^verbatim>\<open>undefined\<close>, the value out of range.\<close>
  "rd pixels i = (if i < length pixels then Some (pixels ! i) else None)"

definition charAt :: "jsstring \<Rightarrow> int \<Rightarrow> jsstring" where
  \<comment> \<open>What \<^verbatim>\<open>+= chars[i]\<close> appends: the code unit, or the text of \<^verbatim>\<open>undefined\<close> when \<open>i\<close> is
      no index of the string.\<close>
  "charAt chars i =
     (if 0 \<le> i \<and> i < int (length chars) then [chars ! nat i] else undefinedText)"

definition confirmedWidth :: "bool \<Rightarrow> settings \<Rightarrow> int" where
  \<comment> \<open>The high-resolution check; \<open>confirmHighRes\<close> is the answer of the \<^verbatim>\<open>confirm\<close> dialog.\<close>
  "confirmedWidth confirmHighRes options =
     (if width options > 500 \<and> \<not> highResolutionConfirmed options then
        (if \<not> confirmHighRes then min (width options) 500 else width options)
      else width options)"

definition resolvedHeight :: "imageSource \<Rightarrow> settings \<Rightarrow> int" where
  "resolvedHeight img settings =
     (if height settings = 0 then
        (let aspectRatio = double (double (real (naturalHeight img) / real (naturalWidth img)) * 0.5)
         in Math_round (double (real_of_int (width settings) * aspectRatio)))
      else height settings)"

definition effectiveWidth :: "settings \<Rightarrow> int" where
  "effectiveWidth settings =
     Math_round (double (real_of_int (width settings) *
       double (real_of_int (stretchWidth settings) / 100)))"

definition effectiveHeight :: "settings \<Rightarrow> int" where
  "effectiveHeight settings =
     Math_round (double (real_of_int (height settings) *
       double (real_of_int (stretchHeight settings) / 100)))"

definition mergedSettings :: "bool \<Rightarrow> imageSource \<Rightarrow> settings \<Rightarrow> settings" where
  \<comment> \<open>The object \<^verbatim>\<open>settings\<close> once the width is settled and the height is calculated.\<close>
  "mergedSettings confirmHighRes img options =
     (let settings = options\<lparr>width := confirmedWidth confirmHighRes options\<rparr>
      in settings\<lparr>height := resolvedHeight img settings\<rparr>)"

subsection \<open>\<^verbatim>\<open>public/conv2ascii.js\<close>\<close>

definition cellBrightness :: "8 word \<Rightarrow> 8 word \<Rightarrow> 8 word \<Rightarrow> int" where
  \<comment> \<open>\<^verbatim>\<open>Math.round(0.299 * r + 0.587 * g + 0.114 * b)\<close>: three literals, three products and
      two sums from left to right, each a double.\<close>
  "cellBrightness r g b =
     Math_round
       (double (double (double (double 0.299 * byteVal r) + double (double 0.587 * byteVal g)) +
          double (double 0.114 * byteVal b)))"

definition charIndex :: "jsstring \<Rightarrow> int \<Rightarrow> int" where
  "charIndex chars brightness' =
     min (int (length chars) - 1)
         (Math_floor (real (length chars) * real_of_int brightness' / 256))"

definition cellGlyph :: "jsstring \<Rightarrow> 8 word list \<Rightarrow> nat \<Rightarrow> jsstring" where
  \<comment> \<open>The text appended for the cell whose pixel starts at \<open>idx\<close>. A read out of range
      gives \<^verbatim>\<open>undefined\<close>, the brightness and the index are \<^verbatim>\<open>NaN\<close>, and \<^verbatim>\<open>chars[NaN]\<close> is
      \<^verbatim>\<open>undefined\<close>.\<close>
  "cellGlyph chars pixels idx =
     (case (rd pixels idx, rd pixels (idx + 1), rd pixels (idx + 2)) of
        (Some r, Some g, Some b) \<Rightarrow> charAt chars (charIndex chars (cellBrightness r g b))
      | _ \<Rightarrow> undefinedText)"

function cellLoop ::
  "jsstring \<Rightarrow> 8 word list \<Rightarrow> 8 word list \<Rightarrow> bool \<Rightarrow> int \<Rightarrow> int \<Rightarrow> int \<Rightarrow>
   jsstring \<Rightarrow> color option list list \<Rightarrow> jsstring \<times> color option list list" where
  "cellLoop chars pixels originalPixels col ew y x ascii colorMap =
     (if x < ew then
        (let idx = nat ((y * ew + x) * 4)
         in cellLoop chars pixels originalPixels col ew y (x + 1)
              (ascii @ cellGlyph chars pixels idx)
              (if col then
                 colorMap[nat y := (colorMap ! nat y)[nat x :=
                   Some (rd originalPixels idx, rd originalPixels (idx + 1),
                         rd originalPixels (idx + 2))]]
               else colorMap))
      else (ascii, colorMap))"
  by pat_completeness auto
termination
  by (relation "measure (\<lambda>(chars, pixels, originalPixels, col, ew, y, x, ascii, colorMap).
        nat (ew - x))") auto

declare cellLoop.simps [simp del]

function rowLoop ::
  "jsstring \<Rightarrow> 8 word list \<Rightarrow> 8 word list \<Rightarrow> bool \<Rightarrow> int \<Rightarrow> int \<Rightarrow> int \<Rightarrow>
   jsstring \<Rightarrow> color option list list \<Rightarrow> jsstring \<times> color option list list" where
  "rowLoop chars pixels originalPixels col ew eh y ascii colorMap =
     (if y < eh then
        (case cellLoop chars pixels originalPixels col ew y 0 ascii colorMap of
           (ascii', colorMap') \<Rightarrow>
             rowLoop chars pixels originalPixels col ew eh (y + 1) (ascii' @ newline) colorMap')
      else (ascii, colorMap))"
  by pat_completeness auto
termination
  by (relation "measure (\<lambda>(chars, pixels, originalPixels, col, ew, eh, y, ascii, colorMap).
        nat (eh - y))") auto

declare rowLoop.simps [simp del]

definition validArrayLength :: "int \<Rightarrow> bool" where
  \<comment> \<open>The integers that \<^verbatim>\<open>Array(n)\<close> takes as a length; for any other it throws a
      \<^verbatim>\<open>RangeError\<close>.\<close>
  "validArrayLength n = (0 \<le> n \<and> n < 2 ^ 32)"

definition initColorMap :: "bool \<Rightarrow> int \<Rightarrow> int \<Rightarrow> error + color option list list" where
  \<comment> \<open>\<^verbatim>\<open>Array(eh).fill().map(() => Array(ew).fill(null))\<close> when \<open>colorized\<close>; the inner arrays
      are made only when there is a row.\<close>
  "initColorMap col ew eh =
     (if col then
        (if validArrayLength eh \<and> (eh = 0 \<or> validArrayLength ew) then
           Inr (replicate (nat eh) (replicate (nat ew) None))
         else Inl RangeError)
      else Inr [])"

definition selectChars :: "settings \<Rightarrow> jsstring" where
  "selectChars settings =
     (if customChars settings \<noteq> [] then customChars settings else charSet settings)"

definition asciiGrid ::
  "bool \<Rightarrow> imageSource \<Rightarrow> settings \<Rightarrow> error + jsstring \<times> color option list list" where
  \<comment> \<open>The part of \<^verbatim>\<open>convertToAscii\<close> from the calculation of the height to the end of the
      loops: the variables \<^verbatim>\<open>ascii\<close> and \<^verbatim>\<open>colorMap\<close> there, or the exception thrown on the
      way.\<close>
  "asciiGrid confirmHighRes img options =
     (let settings = mergedSettings confirmHighRes img options;
          ew = effectiveWidth settings;
          eh = effectiveHeight settings
      in case canvasData img ew eh of
           Inl e \<Rightarrow> Inl e
         | Inr originalPixels \<Rightarrow>
             (let pixels = applyImageAdjustments settings originalPixels;
                  chars = selectChars settings
              in case initColorMap (colorized settings) ew eh of
                   Inl e \<Rightarrow> Inl e
                 | Inr colorMap0 \<Rightarrow>
                     Inr (rowLoop chars pixels originalPixels (colorized settings) ew eh 0 []
                            colorMap0)))"

definition convertToAscii :: "bool \<Rightarrow> imageSource \<Rightarrow> settings \<Rightarrow> error + conversionResult" where
  \<comment> \<open>The whole function: the load of the image, the grid, the rendering of the text, and the
      object returned. A rejection of the promise is the value \<open>Inl\<close>.\<close>
  "convertToAscii confirmHighRes img options =
     (if \<not> loads img then Inl LoadError
      else
        case asciiGrid confirmHighRes img options of
          Inl e \<Rightarrow> Inl e
        | Inr (ascii, colorMap) \<Rightarrow>
            (case createAsciiImage img ascii
                    (colorized (mergedSettings confirmHighRes img options)) colorMap of
               Inl e \<Rightarrow> Inl e
             | Inr asciiImage \<Rightarrow> Inr \<lparr> resultText = ascii, resultImage = asciiImage \<rparr>))"

subsection \<open>The module variant\<close>

definition cellBrightness_m :: "8 word \<Rightarrow> 8 word \<Rightarrow> 8 word \<Rightarrow> real" where
  "cellBrightness_m r g b = (byteVal r + byteVal g + byteVal b) / 3"

definition charIndex_m :: "jsstring \<Rightarrow> real \<Rightarrow> int" where
  \<comment> \<open>The index used: \<^verbatim>\<open>Math.min(chars.length - 1, charIdx)\<close>.\<close>
  "charIndex_m chars brightness' =
     (let charIdx = Math_floor (brightness' / 256 * real (length chars))
      in min (int (length chars) - 1) charIdx)"

definition cellGlyph_m :: "ramp \<Rightarrow> 8 word list \<Rightarrow> nat \<Rightarrow> jsstring" where
  \<comment> \<open>The text appended for the cell whose pixel starts at \<open>idx\<close>; every read of an
      inherited value is \<^verbatim>\<open>undefined\<close>.\<close>
  "cellGlyph_m chars pixels idx =
     (case chars of
        Inherited \<Rightarrow> undefinedText
      | Chars cs \<Rightarrow>
          (case (rd pixels idx, rd pixels (idx + 1), rd pixels (idx + 2)) of
             (Some r, Some g, Some b) \<Rightarrow> charAt cs (charIndex_m cs (cellBrightness_m r g b))
           | _ \<Rightarrow> undefinedText))"

function cellLoop_m ::
  "ramp \<Rightarrow> 8 word list \<Rightarrow> bool \<Rightarrow> int \<Rightarrow> int \<Rightarrow> int \<Rightarrow>
   jsstring \<Rightarrow> color option list \<Rightarrow> jsstring \<times> color option list" where
  "cellLoop_m chars pixels col ew y x row rowColors =
     (if x < ew then
        (let idx = nat ((y * ew + x) * 4)
         in cellLoop_m chars pixels col ew y (x + 1)
              (row @ cellGlyph_m chars pixels idx)
              (if col then
                 rowColors @ [Some (rd pixels idx, rd pixels (idx + 1), rd pixels (idx + 2))]
               else rowColors))
      else (row, rowColors))"
  by pat_completeness auto
termination
  by (relation "measure (\<lambda>(chars, pixels, col, ew, y, x, row, rowColors). nat (ew - x))") auto

declare cellLoop_m.simps [simp del]

function rowLoop_m ::
  "ramp \<Rightarrow> 8 word list \<Rightarrow> bool \<Rightarrow> int \<Rightarrow> int \<Rightarrow> int \<Rightarrow>
   jsstring \<Rightarrow> color option list list \<Rightarrow> jsstring \<times> color option list list" where
  "rowLoop_m chars pixels col ew eh y ascii colorMap =
     (if y < eh then
        (case cellLoop_m chars pixels col ew y 0 [] [] of
           (row, rowColors) \<Rightarrow>
             rowLoop_m chars pixels col ew eh (y + 1) (ascii @ row @ newline)
               (if col then colorMap @ [rowColors] else colorMap))
      else (ascii, colorMap))"
  by pat_completeness auto
termination
  by (relation "measure (\<lambda>(chars, pixels, col, ew, eh, y, ascii, colorMap). nat (eh - y))") auto

declare rowLoop_m.simps [simp del]

definition selectChars_m :: "settings \<Rightarrow> ramp" where
  \<comment> \<open>\<^verbatim>\<open>x || CHAR_SETS.standard\<close> takes the standard ramp when \<open>x\<close> is \<^verbatim>\<open>undefined\<close> or the
      empty string, and \<open>x\<close> when it is any other string or an inherited value.\<close>
  "selectChars_m settings =
     (if customChars settings \<noteq> [] then Chars (customChars settings)
      else if charSetType settings \<noteq> [] then
        (case CHAR_SETS (charSetType settings) of
           Some (Chars cs) \<Rightarrow> (if cs \<noteq> [] then Chars cs else Chars CHAR_SETS_standard)
         | Some Inherited \<Rightarrow> Inherited
         | None \<Rightarrow> Chars CHAR_SETS_standard)
      else (if charSet settings \<noteq> [] then Chars (charSet settings)
            else Chars CHAR_SETS_standard))"

definition asciiGrid_m ::
  "bool \<Rightarrow> imageSource \<Rightarrow> settings \<Rightarrow> error + jsstring \<times> color option list list" where
  \<comment> \<open>The same part of the module's \<^verbatim>\<open>convertToAscii\<close>. Its call \<^verbatim>\<open>ctx.putImageData\<close> writes
      the adjusted data to the canvas, which is not read again.\<close>
  "asciiGrid_m confirmHighRes img options =
     (let settings = mergedSettings confirmHighRes img options;
          ew = effectiveWidth settings;
          eh = effectiveHeight settings
      in case canvasData img ew eh of
           Inl e \<Rightarrow> Inl e
         | Inr data \<Rightarrow>
             (let pixels = applyImageAdjustments_m settings data;
                  chars = selectChars_m settings
              in Inr (rowLoop_m chars pixels (colorized settings) ew eh 0 [] [])))"

definition convertToAscii_m :: "bool \<Rightarrow> imageSource \<Rightarrow> settings \<Rightarrow> error + conversionResult" where
  "convertToAscii_m confirmHighRes img options =
     (if \<not> loads img then Inl LoadError
      else
        case asciiGrid_m confirmHighRes img options of
          Inl e \<Rightarrow> Inl e
        | Inr (ascii, colorMap) \<Rightarrow>
            (let settings = mergedSettings confirmHighRes img options
             in case createAsciiImage_m img ascii (width settings) (height settings)
                       (colorized settings) colorMap of
                  Inl e \<Rightarrow> Inl e
                | Inr asciiImage \<Rightarrow> Inr \<lparr> resultText = ascii, resultImage = asciiImage \<rparr>))"

section \<open>Predicates used in the statements\<close>

definition identitySettings :: "settings \<Rightarrow> bool" where
  \<comment> \<open>Every adjustment factor has its neutral value.\<close>
  "identitySettings s =
     (brightness s = 100 \<and> contrast s = 100 \<and> saturation s = 100 \<and> grayscale s = 0 \<and>
      invert s = 0 \<and> hue s = 0 \<and> sepia s = 0)"

definition readPixel :: "8 word list \<Rightarrow> nat \<Rightarrow> rgb" where
  \<comment> \<open>The three colour channels of pixel \<open>k\<close>, as the loops read them.\<close>
  "readPixel pixels k =
     (byteVal (pixels ! (4 * k)), byteVal (pixels ! (4 * k + 1)), byteVal (pixels ! (4 * k + 2)))"

definition stored :: "rgb \<Rightarrow> rgb" where
  \<comment> \<open>The channels read back after the three stores that end a loop body.\<close>
  "stored = (\<lambda>(r, g, b).
     (byteVal (toUint8Clamp r), byteVal (toUint8Clamp g), byteVal (toUint8Clamp b)))"

definition inRange :: "rgb \<Rightarrow> bool" where
  \<comment> \<open>Every channel lies in the interval from 0 to 255.\<close>
  "inRange = (\<lambda>(r, g, b). 0 \<le> r \<and> r \<le> 255 \<and> 0 \<le> g \<and> g \<le> 255 \<and> 0 \<le> b \<and> b \<le> 255)"

definition roundTrip :: "real \<Rightarrow> real \<Rightarrow> real \<Rightarrow> rgb" where
  \<comment> \<open>\<^verbatim>\<open>hslToRgb(...rgbToHsl(r, g, b))\<close> in the public script.\<close>
  "roundTrip r g b = (case rgbToHsl r g b of (h, s, l) \<Rightarrow> hslToRgb h s l)"

definition roundTrip_m :: "real \<Rightarrow> real \<Rightarrow> real \<Rightarrow> rgb" where
  \<comment> \<open>The same composition in the module.\<close>
  "roundTrip_m r g b = (case rgbToHsl_m r g b of (h, s, l) \<Rightarrow> hslToRgb_m h s l)"

definition within1 :: "rgb \<Rightarrow> rgb \<Rightarrow> bool" where
  \<comment> \<open>Each channel differs by at most 1.\<close>
  "within1 = (\<lambda>(r', g', b') (r, g, b). \<bar>r' - r\<bar> \<le> 1 \<and> \<bar>g' - g\<bar> \<le> 1 \<and> \<bar>b' - b\<bar> \<le> 1)"

definition gridText :: "(nat \<Rightarrow> jsstring) \<Rightarrow> int \<Rightarrow> int \<Rightarrow> jsstring" where
  \<comment> \<open>The text of a grid of \<open>eh\<close> rows and \<open>ew\<close> columns: row after row, each row the texts
      of its cells from left to right and then a newline; \<open>cell idx\<close> is the text of the
      cell whose pixel starts at index \<open>idx\<close> of the buffer.\<close>
  "gridText cell ew eh =
     concat (map (\<lambda>y. concat (map (\<lambda>x. cell (nat ((y * ew + x) * 4))) [0..ew - 1]) @ newline)
       [0..eh - 1])"

definition textOf :: "error + conversionResult \<Rightarrow> error + jsstring" where
  \<comment> \<open>The field \<^verbatim>\<open>text\<close> of the outcome of a conversion, or its error.\<close>
  "textOf = map_sum id resultText"

definition asciiText :: "bool \<Rightarrow> imageSource \<Rightarrow> settings \<Rightarrow> error + jsstring" where
  \<comment> \<open>The text of the public script when its loops end, before the text is rendered, or
      the exception thrown on the way.\<close>
  "asciiText confirmHighRes img options = map_sum id fst (asciiGrid confirmHighRes img options)"

definition asciiText_m :: "bool \<Rightarrow> imageSource \<Rightarrow> settings \<Rightarrow> error + jsstring" where
  \<comment> \<open>The same for the module.\<close>
  "asciiText_m confirmHighRes img options =
     map_sum id fst (asciiGrid_m confirmHighRes img options)"

definition gridWidth :: "bool \<Rightarrow> imageSource \<Rightarrow> settings \<Rightarrow> int" where
  "gridWidth confirmHighRes img options =
     effectiveWidth (mergedSettings confirmHighRes img options)"

definition gridHeight :: "bool \<Rightarrow> imageSource \<Rightarrow> settings \<Rightarrow> int" where
  "gridHeight confirmHighRes img options =
     effectiveHeight (mergedSettings confirmHighRes img options)"

definition modelled :: "bool \<Rightarrow> imageSource \<Rightarrow> settings \<Rightarrow> bool" where
  \<comment> \<open>The inputs of a conversion on which the embedding follows the source: the image has
      a width, so that the aspect ratio is no division by zero; the contrast factor of the
      public script is no division by zero; and the data that the canvas returns is that of
      an \<^verbatim>\<open>ImageData\<close> of the size asked for, four bytes for each pixel.\<close>
  "modelled confirmHighRes img options =
     (0 < naturalWidth img \<and> contrast options \<noteq> 25900 \<and>
      (case canvasData img (gridWidth confirmHighRes img options)
              (gridHeight confirmHighRes img options) of
         Inl e \<Rightarrow> True
       | Inr px \<Rightarrow>
           length px =
             nat (4 * \<bar>gridWidth confirmHighRes img options\<bar> *
                  \<bar>gridHeight confirmHighRes img options\<bar>)))"



definition whiteBlack :: imageSource where
  \<comment> \<open>An image of two pixels in one row, white on the left and black on the right, opaque.
      Drawn at its own size the canvas holds these two pixels. The rendering succeeds; the
      data URL that it returns is left empty.\<close>
  "whiteBlack =
     \<lparr> loads = True, naturalWidth = 2, naturalHeight = 1,
       canvasData = (\<lambda>w h. if w = 2 \<and> h = 1 then Inr [255, 255, 255, 255, 0, 0, 0, 255]
                             else Inl CanvasError),
       createAsciiImage = (\<lambda>ascii col colorMap. Inr []),
       createAsciiImage_m = (\<lambda>ascii w h col colorMap. Inr []) \<rparr>"

definition redPixel :: imageSource where
  \<comment> \<open>An image of one opaque red pixel, rendered in the same way.\<close>
  "redPixel =
     \<lparr> loads = True, naturalWidth = 1, naturalHeight = 1,
       canvasData = (\<lambda>w h. if w = 1 \<and> h = 1 then Inr [255, 0, 0, 255] else Inl CanvasError),
       createAsciiImage = (\<lambda>ascii col colorMap. Inr []),
       createAsciiImage_m = (\<lambda>ascii w h col colorMap. Inr []) \<rparr>"

definition sameAdjustments :: "settings \<Rightarrow> settings \<Rightarrow> bool" where
  \<comment> \<open>Two settings records agree on the seven adjustment factors.\<close>
  "sameAdjustments s s' =
     (brightness s = brightness s' \<and> contrast s = contrast s' \<and> saturation s = saturation s' \<and>
      grayscale s = grayscale s' \<and> invert s = invert s' \<and> hue s = hue s' \<and> sepia s = sepia s')"

section \<open>The adjustment loop\<close>

lemma applyLoop_length [simp]: "length (applyLoop s i pixels) = length pixels"
proof (induction s i pixels rule: applyLoop.induct)
  case (1 s i pixels)
  show ?case
  proof (cases "i < length pixels")
    case True
    obtain r g b where adj:
      "adjustPixel s (byteVal (pixels ! i), byteVal (pixels ! (i + 1)),
         byteVal (pixels ! (i + 2))) = (r, g, b)"
      using prod_cases3 by blast
    from "1.IH"[OF True adj[symmetric] refl] adj True show ?thesis
      by (subst applyLoop.simps) simp
  next
    case False
    then show ?thesis by (subst applyLoop.simps) simp
  qed
qed

lemma applyLoop_frame:
  "j < i \<or> j mod 4 = 3 \<and> i mod 4 = 0 \<Longrightarrow> applyLoop s i pixels ! j = pixels ! j"
proof (induction s i pixels rule: applyLoop.induct)
  case (1 s i pixels)
  show ?case
  proof (cases "i < length pixels")
    case True
    obtain r g b where adj:
      "adjustPixel s (byteVal (pixels ! i), byteVal (pixels ! (i + 1)),
         byteVal (pixels ! (i + 2))) = (r, g, b)"
      using prod_cases3 by blast
    let ?p = "pixels[i := toUint8Clamp r, i + 1 := toUint8Clamp g, i + 2 := toUint8Clamp b]"
    from "1.prems" have cond: "j < i + 4 \<or> j mod 4 = 3 \<and> (i + 4) mod 4 = 0"
      by auto
    have ne: "j \<noteq> i" "j \<noteq> i + 1" "j \<noteq> i + 2"
      using "1.prems" by presburger+
    have "applyLoop s (i + 4) ?p ! j = ?p ! j"
      using "1.IH"[OF True adj[symmetric] refl cond] .
    also have "?p ! j = pixels ! j"
      using ne by simp
    finally show ?thesis
      using adj True by (subst applyLoop.simps) simp
  next
    case False
    then show ?thesis by (subst applyLoop.simps) simp
  qed
qed

lemma applyLoop_pixel:
  assumes "i mod 4 = 0" "i \<le> 4 * k" "4 * k + 2 < length pixels"
  shows "(applyLoop s i pixels ! (4 * k), applyLoop s i pixels ! (4 * k + 1),
          applyLoop s i pixels ! (4 * k + 2)) =
         (case adjustPixel s (byteVal (pixels ! (4 * k)), byteVal (pixels ! (4 * k + 1)),
                              byteVal (pixels ! (4 * k + 2))) of
            (r, g, b) \<Rightarrow> (toUint8Clamp r, toUint8Clamp g, toUint8Clamp b))"
  using assms
proof (induction s i pixels rule: applyLoop.induct)
  case (1 s i pixels)
  from "1.prems" have lt: "i < length pixels" by simp
  obtain r g b where adj:
    "adjustPixel s (byteVal (pixels ! i), byteVal (pixels ! (i + 1)),
       byteVal (pixels ! (i + 2))) = (r, g, b)"
    using prod_cases3 by blast
  let ?p = "pixels[i := toUint8Clamp r, i + 1 := toUint8Clamp g, i + 2 := toUint8Clamp b]"
  have unf: "applyLoop s i pixels = applyLoop s (i + 4) ?p"
    using adj lt by (subst applyLoop.simps) simp
  show ?case
  proof (cases "i = 4 * k")
    case True
    have "applyLoop s (i + 4) ?p ! (4 * k) = ?p ! (4 * k)"
         "applyLoop s (i + 4) ?p ! (4 * k + 1) = ?p ! (4 * k + 1)"
         "applyLoop s (i + 4) ?p ! (4 * k + 2) = ?p ! (4 * k + 2)"
      using True by (simp_all add: applyLoop_frame)
    moreover have "?p ! (4 * k) = toUint8Clamp r" "?p ! (4 * k + 1) = toUint8Clamp g"
      "?p ! (4 * k + 2) = toUint8Clamp b"
      using True "1.prems" by simp_all
    ultimately show ?thesis
      using unf adj True by simp
  next
    case False
    with "1.prems" have le: "i + 4 \<le> 4 * k" by presburger
    from "1.prems" have m: "(i + 4) mod 4 = 0" by simp
    have len: "4 * k + 2 < length ?p" using "1.prems" by simp
    have same: "?p ! (4 * k) = pixels ! (4 * k)" "?p ! (4 * k + 1) = pixels ! (4 * k + 1)"
      "?p ! (4 * k + 2) = pixels ! (4 * k + 2)"
      using le by simp_all
    show ?thesis
      using "1.IH"[OF lt adj[symmetric] refl m le len] unf same by simp
  qed
qed

lemma applyLoop_m_length [simp]: "length (applyLoop_m s i pixels) = length pixels"
proof (induction s i pixels rule: applyLoop_m.induct)
  case (1 s i pixels)
  show ?case
  proof (cases "i < length pixels")
    case True
    obtain r g b where adj:
      "adjustPixel_m s (byteVal (pixels ! i), byteVal (pixels ! (i + 1)),
         byteVal (pixels ! (i + 2))) = (r, g, b)"
      using prod_cases3 by blast
    from "1.IH"[OF True adj[symmetric] refl] adj True show ?thesis
      by (subst applyLoop_m.simps) simp
  next
    case False
    then show ?thesis by (subst applyLoop_m.simps) simp
  qed
qed

lemma applyLoop_m_frame:
  "j < i \<or> j mod 4 = 3 \<and> i mod 4 = 0 \<Longrightarrow> applyLoop_m s i pixels ! j = pixels ! j"
proof (induction s i pixels rule: applyLoop_m.induct)
  case (1 s i pixels)
  show ?case
  proof (cases "i < length pixels")
    case True
    obtain r g b where adj:
      "adjustPixel_m s (byteVal (pixels ! i), byteVal (pixels ! (i + 1)),
         byteVal (pixels ! (i + 2))) = (r, g, b)"
      using prod_cases3 by blast
    let ?p = "pixels[i := toUint8Clamp r, i + 1 := toUint8Clamp g, i + 2 := toUint8Clamp b]"
    from "1.prems" have cond: "j < i + 4 \<or> j mod 4 = 3 \<and> (i + 4) mod 4 = 0"
      by auto
    have ne: "j \<noteq> i" "j \<noteq> i + 1" "j \<noteq> i + 2"
      using "1.prems" by presburger+
    have "applyLoop_m s (i + 4) ?p ! j = ?p ! j"
      using "1.IH"[OF True adj[symmetric] refl cond] .
    also have "?p ! j = pixels ! j"
      using ne by simp
    finally show ?thesis
      using adj True by (subst applyLoop_m.simps) simp
  next
    case False
    then show ?thesis by (subst applyLoop_m.simps) simp
  qed
qed

lemma applyLoop_m_pixel:
  assumes "i mod 4 = 0" "i \<le> 4 * k" "4 * k + 2 < length pixels"
  shows "(applyLoop_m s i pixels ! (4 * k), applyLoop_m s i pixels ! (4 * k + 1),
          applyLoop_m s i pixels ! (4 * k + 2)) =
         (case adjustPixel_m s (byteVal (pixels ! (4 * k)), byteVal (pixels ! (4 * k + 1)),
                              byteVal (pixels ! (4 * k + 2))) of
            (r, g, b) \<Rightarrow> (toUint8Clamp r, toUint8Clamp g, toUint8Clamp b))"
  using assms
proof (induction s i pixels rule: applyLoop_m.induct)
  case (1 s i pixels)
  from "1.prems" have lt: "i < length pixels" by simp
  obtain r g b where adj:
    "adjustPixel_m s (byteVal (pixels ! i), byteVal (pixels ! (i + 1)),
       byteVal (pixels ! (i + 2))) = (r, g, b)"
    using prod_cases3 by blast
  let ?p = "pixels[i := toUint8Clamp r, i + 1 := toUint8Clamp g, i + 2 := toUint8Clamp b]"
  have unf: "applyLoop_m s i pixels = applyLoop_m s (i + 4) ?p"
    using adj lt by (subst applyLoop_m.simps) simp
  show ?case
  proof (cases "i = 4 * k")
    case True
    have "applyLoop_m s (i + 4) ?p ! (4 * k) = ?p ! (4 * k)"
         "applyLoop_m s (i + 4) ?p ! (4 * k + 1) = ?p ! (4 * k + 1)"
         "applyLoop_m s (i + 4) ?p ! (4 * k + 2) = ?p ! (4 * k + 2)"
      using True by (simp_all add: applyLoop_m_frame)
    moreover have "?p ! (4 * k) = toUint8Clamp r" "?p ! (4 * k + 1) = toUint8Clamp g"
      "?p ! (4 * k + 2) = toUint8Clamp b"
      using True "1.prems" by simp_all
    ultimately show ?thesis
      using unf adj True by simp
  next
    case False
    with "1.prems" have le: "i + 4 \<le> 4 * k" by presburger
    from "1.prems" have m: "(i + 4) mod 4 = 0" by simp
    have len: "4 * k + 2 < length ?p" using "1.prems" by simp
    have same: "?p ! (4 * k) = pixels ! (4 * k)" "?p ! (4 * k + 1) = pixels ! (4 * k + 1)"
      "?p ! (4 * k + 2) = pixels ! (4 * k + 2)"
      using le by simp_all
    show ?thesis
      using "1.IH"[OF lt adj[symmetric] refl m le len] unf same by simp
  qed
qed

lemma rd_applyLoop_alpha: "rd (applyLoop s 0 pixels) (4 * k + 3) = rd pixels (4 * k + 3)"
  by (simp add: rd_def applyLoop_frame)

lemma rd_applyLoop_m_alpha: "rd (applyLoop_m s 0 pixels) (4 * k + 3) = rd pixels (4 * k + 3)"
  by (simp add: rd_def applyLoop_m_frame)

text \<open>
  Claim C10. For every buffer and every settings record, the adjustment stage leaves the
  alpha byte of every pixel as it was: after \<^verbatim>\<open>applyImageAdjustments\<close>, in the public script
  and in the module, the array has its former length and a read at an index \<open>4 * k + 3\<close>
  gives what it gave before the call.
\<close>

theorem alpha_never_modified:
  "length (applyImageAdjustments s pixels) = length pixels \<and>
   rd (applyImageAdjustments s pixels) (4 * k + 3) = rd pixels (4 * k + 3) \<and>
   length (applyImageAdjustments_m s pixels) = length pixels \<and>
   rd (applyImageAdjustments_m s pixels) (4 * k + 3) = rd pixels (4 * k + 3)"
  unfolding applyImageAdjustments_def applyImageAdjustments_m_def
  using rd_applyLoop_alpha rd_applyLoop_m_alpha by simp

section \<open>Neutral settings\<close>

lemma byteVal_range: "0 \<le> byteVal w \<and> byteVal w \<le> 255"
proof -
  have "unat w < 2 ^ 8" using unsigned_less [of w] by simp
  then have "unat w \<le> 255" by simp
  then have "real (unat w) \<le> real 255" by (rule of_nat_mono)
  then show ?thesis by (simp add: byteVal_def del: of_nat_unat)
qed

lemma toUint8Clamp_byteVal [simp]: "toUint8Clamp (byteVal w) = w"
proof -
  have "0 \<le> byteVal w" "byteVal w \<le> 255" using byteVal_range by simp_all
  then have "min 255 (max 0 (byteVal w)) = byteVal w" by simp
  moreover have "\<lfloor>byteVal w\<rfloor> = int (unat w)"
    by (simp add: byteVal_def del: of_nat_unat)
  moreover have "byteVal w = real_of_int (int (unat w))"
    by (simp add: byteVal_def del: of_nat_unat)
  ultimately have "toUint8Clamp (byteVal w) = of_int (int (unat w))"
    by (simp add: toUint8Clamp_def Let_def del: of_nat_unat)
  then show ?thesis by simp
qed

lemma store_same [simp]: "xs[j := toUint8Clamp (byteVal (xs ! j))] = xs"
  by (cases "j < length xs") simp_all

lemma truncate_id: "0 \<le> v \<Longrightarrow> v \<le> 255 \<Longrightarrow> truncate v = v"
  by (simp add: truncate_def)

lemma adjustPixel_identity:
  "identitySettings s \<Longrightarrow> adjustPixel s p = p"
  by (cases p)
     (simp add: identitySettings_def adjustPixel_def applyBrightness_def applyContrast_def
        applySaturation_def applyGrayscale_def applyInvert_def applySepia_def applyHue_def)

lemma adjustPixel_m_identity:
  assumes "identitySettings s" "0 \<le> r" "r \<le> 255" "0 \<le> g" "g \<le> 255" "0 \<le> b" "b \<le> 255"
  shows "adjustPixel_m s (r, g, b) = (r, g, b)"
proof -
  have 1: "applyBrightness_m s (r, g, b) = (r, g, b)"
    using assms by (simp add: identitySettings_def applyBrightness_m_def truncate_id)
  have 2: "applyContrast_m s (r, g, b) = (r, g, b)"
    using assms by (simp add: identitySettings_def applyContrast_m_def truncate_id)
  have 3: "applySaturation_m s (r, g, b) = (r, g, b)"
    using assms by (simp add: identitySettings_def applySaturation_m_def truncate_id)
  have 4: "applyGrayscale_m s (r, g, b) = (r, g, b)"
    using assms by (simp add: identitySettings_def applyGrayscale_m_def)
  have 5: "applyInvert_m s (r, g, b) = (r, g, b)"
    using assms by (simp add: identitySettings_def applyInvert_m_def)
  have 6: "applyHue_m s (r, g, b) = (r, g, b)"
    using assms by (simp add: identitySettings_def applyHue_m_def)
  have 7: "applySepia_m s (r, g, b) = (r, g, b)"
    using assms by (simp add: identitySettings_def applySepia_m_def)
  show ?thesis
    by (simp add: adjustPixel_m_def 1 2 3 4 5 6 7)
qed

lemma applyLoop_identity: "identitySettings s \<Longrightarrow> applyLoop s i pixels = pixels"
proof (induction s i pixels rule: applyLoop.induct)
  case (1 s i pixels)
  show ?case
  proof (cases "i < length pixels")
    case True
    let ?t = "(byteVal (pixels ! i), byteVal (pixels ! (i + 1)), byteVal (pixels ! (i + 2)))"
    have adj: "?t = adjustPixel s ?t"
      using "1.prems" by (simp add: adjustPixel_identity)
    have "applyLoop s (i + 4) pixels = pixels"
      using "1.IH"[OF True adj refl "1.prems"] by simp
    then show ?thesis
      using True adj[symmetric] by (subst applyLoop.simps) simp
  next
    case False
    then show ?thesis by (subst applyLoop.simps) simp
  qed
qed

lemma applyLoop_m_identity: "identitySettings s \<Longrightarrow> applyLoop_m s i pixels = pixels"
proof (induction s i pixels rule: applyLoop_m.induct)
  case (1 s i pixels)
  show ?case
  proof (cases "i < length pixels")
    case True
    let ?t = "(byteVal (pixels ! i), byteVal (pixels ! (i + 1)), byteVal (pixels ! (i + 2)))"
    have adj: "?t = adjustPixel_m s ?t"
      using "1.prems" byteVal_range by (simp add: adjustPixel_m_identity)
    have "applyLoop_m s (i + 4) pixels = pixels"
      using "1.IH"[OF True adj refl "1.prems"] by simp
    then show ?thesis
      using True adj[symmetric] by (subst applyLoop_m.simps) simp
  next
    case False
    then show ?thesis by (subst applyLoop_m.simps) simp
  qed
qed

text \<open>
  Claim C4. When every factor has its neutral value (brightness, contrast and saturation
  100, grayscale, invert, hue and sepia 0), the adjustment stage leaves the buffer of an
  \<^verbatim>\<open>ImageData\<close> (four bytes for each pixel) as it was, in the public script and in the
  module: every channel is equal to what it was, which is within the tolerance of 1 that
  the claim allows.
\<close>

theorem identity_settings_keep_buffer:
  assumes "brightness s = 100" "contrast s = 100" "saturation s = 100" "grayscale s = 0"
    "invert s = 0" "hue s = 0" "sepia s = 0" "4 dvd length pixels"
  shows "applyImageAdjustments s pixels = pixels \<and> applyImageAdjustments_m s pixels = pixels"
proof -
  have "identitySettings s" using assms by (simp add: identitySettings_def)
  then show ?thesis
    by (simp add: applyImageAdjustments_def applyImageAdjustments_m_def applyLoop_identity
        applyLoop_m_identity)
qed

theorem identity_settings_keep_buffer_witness:
  "applyImageAdjustments defaults [10, 20, 30, 255, 0, 128, 255, 7] = [10, 20, 30, 255, 0, 128, 255, 7] \<and>
   applyImageAdjustments_m defaults [10, 20, 30, 255, 0, 128, 255, 7] = [10, 20, 30, 255, 0, 128, 255, 7]"
proof -
  have "length [10, 20, 30, 255, 0, 128, 255, 7 :: 8 word] = 4 * 2" by simp
  then have "4 dvd length [10, 20, 30, 255, 0, 128, 255, 7 :: 8 word]" by (simp only: dvd_triv_left)
  then show ?thesis
    using identity_settings_keep_buffer [of defaults "[10, 20, 30, 255, 0, 128, 255, 7]"]
    by (simp add: defaults_def)
qed

section \<open>Order of the adjustments\<close>

lemmas js_eval = truncate_def rgbToHsl_def hslToRgb_def hue2rgb_def jsRem_def Math_round_def
  rgbToHsl_m_def hslToRgb_m_def toUint8Clamp_def byteVal_def Let_def

lemmas step_defs = applyBrightness_def applyContrast_def applySaturation_def
  applyGrayscale_def applyInvert_def applySepia_def applyHue_def

lemmas step_m_defs = applyBrightness_m_def applyContrast_m_def applySaturation_m_def
  applyGrayscale_m_def applyInvert_m_def applyHue_m_def applySepia_m_def

lemma readPixel_applyLoop:
  assumes "4 * k + 2 < length pixels"
  shows "readPixel (applyLoop s 0 pixels) k = stored (adjustPixel s (readPixel pixels k))"
proof -
  have a: "(0::nat) mod 4 = 0" "0 \<le> 4 * k" by simp_all
  obtain r g b where adj: "adjustPixel s (readPixel pixels k) = (r, g, b)"
    using prod_cases3 by blast
  show ?thesis
    using applyLoop_pixel [OF a assms, of s] adj
    by (simp add: readPixel_def stored_def)
qed

lemma readPixel_applyLoop_m:
  assumes "4 * k + 2 < length pixels"
  shows "readPixel (applyLoop_m s 0 pixels) k = stored (adjustPixel_m s (readPixel pixels k))"
proof -
  have a: "(0::nat) mod 4 = 0" "0 \<le> 4 * k" by simp_all
  obtain r g b where adj: "adjustPixel_m s (readPixel pixels k) = (r, g, b)"
    using prod_cases3 by blast
  show ?thesis
    using applyLoop_m_pixel [OF a assms, of s] adj
    by (simp add: readPixel_def stored_def)
qed

text \<open>
  Claim C5, as amended. Every pixel is transformed on its own: the three bytes stored for
  pixel \<open>k\<close> are computed from the three bytes read for pixel \<open>k\<close>. In the public script the
  blocks run in the order brightness, contrast, saturation, grayscale, invert, sepia, hue;
  in the module they run in the order brightness, contrast, saturation, grayscale, invert,
  hue, sepia. The setting \<open>contrast = 25900\<close>, a division by zero in the public script, is
  left out.
\<close>

theorem adjustment_order:
  assumes "4 * k + 2 < length pixels" "contrast s \<noteq> 25900"
  shows
    "readPixel (applyImageAdjustments s pixels) k =
       stored (applyHue s (applySepia s (applyInvert s (applyGrayscale s (applySaturation s
         (applyContrast s (applyBrightness s (readPixel pixels k)))))))) \<and>
     readPixel (applyImageAdjustments_m s pixels) k =
       stored (applySepia_m s (applyHue_m s (applyInvert_m s (applyGrayscale_m s
         (applySaturation_m s (applyContrast_m s (applyBrightness_m s
           (readPixel pixels k))))))))"
  unfolding applyImageAdjustments_def applyImageAdjustments_m_def
  using readPixel_applyLoop [OF assms(1), of s] readPixel_applyLoop_m [OF assms(1), of s]
  by (simp only: adjustPixel_def adjustPixel_m_def Let_def)

theorem adjustment_order_witness:
  "readPixel (applyImageAdjustments (defaults\<lparr>hue := 180, sepia := 100\<rparr>) [255, 0, 0, 255]) 0 =
     (69, 81, 100) \<and>
   readPixel (applyImageAdjustments_m (defaults\<lparr>hue := 50, sepia := 100\<rparr>) [255, 0, 0, 255]) 0 =
     (244, 218, 170)"
proof -
  have l: "4 * 0 + 2 < length [255, 0, 0, 255 :: 8 word]" by simp
  have rp: "readPixel [255, 0, 0, 255] 0 = (255, 0, 0)" by (simp add: readPixel_def byteVal_def)
  have c: "contrast (defaults\<lparr>hue := 180, sepia := 100\<rparr>) \<noteq> 25900"
    "contrast (defaults\<lparr>hue := 50, sepia := 100\<rparr>) \<noteq> 25900"
    by (simp_all add: defaults_def)
  show ?thesis
    using adjustment_order [OF l c(1)] adjustment_order [OF l c(2)]
    by (simp add: rp stored_def defaults_def step_defs step_m_defs js_eval)
qed

text \<open>
  The order of the claim, with the hue rotation after sepia, is not the order of the
  module: for a red pixel with \<open>hue = 50\<close> and \<open>sepia = 100\<close> the module stores
  \<open>(244, 218, 170)\<close>, and the blocks of the module run in the order of the claim would
  store \<open>(69, 81, 100)\<close>.
\<close>

theorem hue_last_counterexample:
  "applyImageAdjustments_m (defaults\<lparr>hue := 50, sepia := 100\<rparr>) [255, 0, 0, 255] =
     [244, 218, 170, 255] \<and>
   stored (applyHue_m (defaults\<lparr>hue := 50, sepia := 100\<rparr>)
           (applySepia_m (defaults\<lparr>hue := 50, sepia := 100\<rparr>)
           (applyInvert_m (defaults\<lparr>hue := 50, sepia := 100\<rparr>)
           (applyGrayscale_m (defaults\<lparr>hue := 50, sepia := 100\<rparr>)
           (applySaturation_m (defaults\<lparr>hue := 50, sepia := 100\<rparr>)
           (applyContrast_m (defaults\<lparr>hue := 50, sepia := 100\<rparr>)
           (applyBrightness_m (defaults\<lparr>hue := 50, sepia := 100\<rparr>)
             (readPixel [255, 0, 0, 255] 0)))))))) =
     (69, 81, 100)"
proof -
  have b: "byteVal 255 = 255" "byteVal 0 = 0" by (simp_all add: byteVal_def)
  have rp: "readPixel [255, 0, 0, 255] 0 = (255, 0, 0)" by (simp add: readPixel_def byteVal_def)
  have p: "adjustPixel_m (defaults\<lparr>hue := 50, sepia := 100\<rparr>) (255, 0, 0) =
      (24429 / 100, 21777 / 100, 6783 / 40)"
    by (simp add: adjustPixel_m_def defaults_def step_m_defs js_eval)
  have "applyLoop_m (defaults\<lparr>hue := 50, sepia := 100\<rparr>) 0 [255, 0, 0, 255] =
      [244, 218, 170, 255]"
    by (simp add: applyLoop_m.simps [of _ 0] applyLoop_m.simps [of _ 4] b p toUint8Clamp_def Let_def)
  then show ?thesis
    by (simp add: applyImageAdjustments_m_def rp stored_def defaults_def step_m_defs js_eval)
qed

section \<open>Clamping\<close>

lemma truncate_range [simp]: "0 \<le> truncate v" "truncate v \<le> 255"
  by (simp_all add: truncate_def)

lemma inRange_truncate [simp]: "inRange (truncate x, truncate y, truncate z)"
  by (simp add: inRange_def)

lemma jsRem_1_range: "- 1 < jsRem x 1 \<and> jsRem x 1 < 1"
proof (cases "0 \<le> x")
  case True
  then have "jsRem x 1 = x - of_int \<lfloor>x\<rfloor>" by (simp add: jsRem_def)
  then show ?thesis using True by linarith
next
  case False
  then have "jsRem x 1 = x - of_int \<lceil>x\<rceil>" by (simp add: jsRem_def)
  then show ?thesis using False by linarith
qed

lemma mix_unit:
  fixes p q u :: real
  assumes "0 \<le> p" "p \<le> 1" "0 \<le> q" "q \<le> 1" "0 \<le> u" "u \<le> 1"
  shows "0 \<le> p + (q - p) * u \<and> p + (q - p) * u \<le> 1"
proof -
  have e: "p + (q - p) * u = (1 - u) * p + u * q" by (simp add: algebra_simps)
  have "0 \<le> (1 - u) * p" "0 \<le> u * q" using assms by simp_all
  moreover have "(1 - u) * p \<le> (1 - u) * 1" using assms by (intro mult_left_mono) simp_all
  moreover have "u * q \<le> u * 1" using assms by (intro mult_left_mono) simp_all
  ultimately show ?thesis unfolding e by simp
qed

lemma hue2rgb_unit:
  assumes "0 \<le> p" "p \<le> 1" "0 \<le> q" "q \<le> 1" "- 1 < t" "t < 1"
  shows "0 \<le> hue2rgb p q t \<and> hue2rgb p q t \<le> 1"
proof -
  define u where "u = (if t < 0 then t + 1 else t)"
  have u: "0 \<le> u" "u \<le> 1" using assms by (auto simp: u_def)
  have h: "hue2rgb p q t =
      (if u < 1 / 6 then p + (q - p) * 6 * u
       else if u < 1 / 2 then q
       else if u < 2 / 3 then p + (q - p) * (2 / 3 - u) * 6
       else p)"
    using u by (simp add: hue2rgb_def u_def Let_def)
  have m1: "0 \<le> p + (q - p) * 6 * u \<and> p + (q - p) * 6 * u \<le> 1" if "u < 1 / 6"
  proof -
    have e: "p + (q - p) * 6 * u = p + (q - p) * (6 * u)" by (simp only: mult.assoc)
    have "0 \<le> 6 * u" "6 * u \<le> 1" using u that by simp_all
    then show ?thesis unfolding e by (rule mix_unit [OF assms(1-4)])
  qed
  have m2: "0 \<le> p + (q - p) * (2 / 3 - u) * 6 \<and> p + (q - p) * (2 / 3 - u) * 6 \<le> 1"
    if "\<not> u < 1 / 2" "u < 2 / 3"
  proof -
    have e: "p + (q - p) * (2 / 3 - u) * 6 = p + (q - p) * ((2 / 3 - u) * 6)"
      by (simp only: mult.assoc)
    have "0 \<le> (2 / 3 - u) * 6" "(2 / 3 - u) * 6 \<le> 1" using that by simp_all
    then show ?thesis unfolding e by (rule mix_unit [OF assms(1-4)])
  qed
  show ?thesis
    unfolding h using m1 m2 assms(1-4) by auto
qed

lemma Math_round_255:
  assumes "0 \<le> x" "x \<le> 1"
  shows "0 \<le> real_of_int (Math_round (x * 255)) \<and> real_of_int (Math_round (x * 255)) \<le> 255"
proof -
  have "0 \<le> x * 255 + 1 / 2" "x * 255 + 1 / 2 < 256" using assms by simp_all
  then have "0 \<le> \<lfloor>x * 255 + 1 / 2\<rfloor>" "\<lfloor>x * 255 + 1 / 2\<rfloor> < 256"
    by (simp_all add: floor_less_iff)
  then show ?thesis by (simp add: Math_round_def)
qed

lemma pq_unit:
  fixes s l :: real
  assumes "0 \<le> s" "s \<le> 1" "0 \<le> l" "l \<le> 1"
  defines "q \<equiv> (if l < 1 / 2 then l * (1 + s) else l + s - l * s)"
  shows "0 \<le> q \<and> q \<le> 1 \<and> 0 \<le> 2 * l - q \<and> 2 * l - q \<le> 1"
proof (cases "l < 1 / 2")
  case True
  have a: "l * s \<le> l * 1" using assms(1-4) by (intro mult_left_mono) simp_all
  have b: "0 \<le> l * s" using assms(1-4) by simp
  have q: "q = l + l * s" using True by (simp add: q_def algebra_simps)
  show ?thesis unfolding q using a b assms(1-4) True by linarith
next
  case False
  have "(1 - l) * s \<le> (1 - l) * 1" using assms(1-4) by (intro mult_left_mono) simp_all
  moreover have "0 \<le> (1 - l) * s" using assms(1-4) by simp
  moreover have "(1 - l) * s = s - l * s" by (simp add: algebra_simps)
  ultimately have a: "s - l * s \<le> 1 - l" and b: "0 \<le> s - l * s" by simp_all
  have q: "q = l + (s - l * s)" using False by (simp add: q_def)
  have "2 * l \<ge> 1" using False by simp
  then show ?thesis unfolding q using a b assms(1-4) by (intro conjI) linarith+
qed

lemma hslToRgb_m_range:
  assumes "0 \<le> s0" "s0 \<le> 100" "0 \<le> l0" "l0 \<le> 100"
  shows "inRange (hslToRgb_m h s0 l0)"
proof -
  have s: "0 \<le> s0 / 100" "s0 / 100 \<le> 1" and l: "0 \<le> l0 / 100" "l0 / 100 \<le> 1"
    using assms by simp_all
  show ?thesis
  proof (cases "s0 / 100 = 0")
    case True
    then show ?thesis
      using Math_round_255 [OF l] by (simp add: hslToRgb_m_def inRange_def Let_def)
  next
    case False
    define q where "q = (if l0 / 100 < 1 / 2 then l0 / 100 * (1 + s0 / 100)
                          else l0 / 100 + s0 / 100 - l0 / 100 * (s0 / 100))"
    define p where "p = 2 * (l0 / 100) - q"
    have pq: "0 \<le> q" "q \<le> 1" "0 \<le> p" "p \<le> 1"
      using pq_unit [OF s l] by (simp_all add: q_def p_def)
    have t: "\<And>x. 0 \<le> hue2rgb p q (jsRem x 1) \<and> hue2rgb p q (jsRem x 1) \<le> 1"
      using hue2rgb_unit [OF pq(3,4,1,2)] jsRem_1_range by blast
    have "hslToRgb_m h s0 l0 =
        (real_of_int (Math_round (hue2rgb p q (jsRem (h / 360 + 1 / 3) 1) * 255)),
         real_of_int (Math_round (hue2rgb p q (jsRem (h / 360) 1) * 255)),
         real_of_int (Math_round (hue2rgb p q (jsRem (h / 360 - 1 / 3) 1) * 255)))"
      using False unfolding hslToRgb_m_def p_def q_def by (simp only: Let_def if_False)
    then show ?thesis
      using t Math_round_255 by (simp add: inRange_def)
  qed
qed

lemma rgbToHsl_m_range:
  assumes "inRange (r, g, b)" "rgbToHsl_m r g b = (h, s, l)"
  shows "0 \<le> s \<and> s \<le> 100 \<and> 0 \<le> l \<and> l \<le> 100"
proof -
  define mx where "mx = max (max (r / 255) (g / 255)) (b / 255)"
  define mn where "mn = min (min (r / 255) (g / 255)) (b / 255)"
  have b: "0 \<le> mn" "mn \<le> mx" "mx \<le> 1"
    using assms(1) by (auto simp: inRange_def mx_def mn_def)
  show ?thesis
  proof (cases "mx = mn")
    case True
    then have "s = 0" "l = (mx + mn) / 2 * 100"
      using assms(2) by (simp_all add: rgbToHsl_m_def mx_def mn_def Let_def)
    then show ?thesis using b by simp
  next
    case False
    then have sl: "s = (if (mx + mn) / 2 > 1 / 2 then (mx - mn) / (2 - mx - mn)
                       else (mx - mn) / (mx + mn)) * 100" "l = (mx + mn) / 2 * 100"
      using assms(2) unfolding rgbToHsl_m_def Let_def mx_def [symmetric] mn_def [symmetric]
      by simp_all
    have "0 \<le> (mx - mn) / (2 - mx - mn) \<and> (mx - mn) / (2 - mx - mn) \<le> 1"
      if "(mx + mn) / 2 > 1 / 2"
      using that b False by (simp add: divide_le_eq)
    moreover have "0 \<le> (mx - mn) / (mx + mn) \<and> (mx - mn) / (mx + mn) \<le> 1"
      if "\<not> (mx + mn) / 2 > 1 / 2"
      using that b False by (simp add: divide_le_eq)
    ultimately show ?thesis using sl b by auto
  qed
qed

lemma hslToRgb_range: "inRange (hslToRgb h s l)"
  by (simp add: hslToRgb_def Let_def split: prod.splits)

lemma inRange_steps:
  assumes "inRange p"
  shows "inRange (applyBrightness s p)" "inRange (applyContrast s p)"
    "inRange (applySaturation s p)" "inRange (applyGrayscale s p)" "inRange (applyInvert s p)"
    "inRange (applySepia s p)" "inRange (applyHue s p)"
  using assms
  by (cases p; simp add: step_defs Let_def hslToRgb_range split: prod.splits)+

lemma inRange_applyHue_m:
  assumes "inRange p"
  shows "inRange (applyHue_m s p)"
proof -
  obtain r g b where p: "p = (r, g, b)" using prod_cases3 by blast
  obtain h0 sat l where hsl: "rgbToHsl_m r g b = (h0, sat, l)" using prod_cases3 by blast
  have "0 \<le> sat \<and> sat \<le> 100 \<and> 0 \<le> l \<and> l \<le> 100"
    using rgbToHsl_m_range assms hsl unfolding p by blast
  then have "\<And>h. inRange (hslToRgb_m h sat l)" by (simp add: hslToRgb_m_range)
  then show ?thesis using assms by (simp add: applyHue_m_def p hsl Let_def)
qed

lemma inRange_steps_m:
  assumes "inRange p"
  shows "inRange (applyBrightness_m s p)" "inRange (applyContrast_m s p)"
    "inRange (applySaturation_m s p)" "inRange (applyGrayscale_m s p)"
    "inRange (applyInvert_m s p)" "inRange (applySepia_m s p)"
  using assms
  by (cases p; simp add: applyBrightness_m_def applyContrast_m_def applySaturation_m_def
      applyGrayscale_m_def applyInvert_m_def applySepia_m_def Let_def)+

lemma inRange_adjustPixel: "inRange p \<Longrightarrow> inRange (adjustPixel s p)"
  by (simp add: adjustPixel_def Let_def inRange_steps)

lemma inRange_adjustPixel_m: "inRange p \<Longrightarrow> inRange (adjustPixel_m s p)"
  by (simp add: adjustPixel_m_def Let_def inRange_steps_m inRange_applyHue_m)

lemma inRange_readPixel: "inRange (readPixel pixels k)"
  using byteVal_range by (simp add: readPixel_def inRange_def)

text \<open>
  Claim C7. The function \<^verbatim>\<open>truncate\<close> is the clamp \<open>max 0 (min 255 v)\<close>. Each of the seven
  blocks, in the public script and in the module, maps channels in the interval from 0 to
  255 to channels in that interval, whatever the settings, so every intermediate value of
  a pixel and the values stored lie in it; the channels read from a buffer, before and
  after the stage, lie in it. The setting \<open>contrast = 25900\<close>, at which the contrast factor
  of the public script is a division by zero, is left out.
\<close>

theorem channels_stay_in_range:
  assumes "inRange p" "contrast s \<noteq> 25900"
  shows
    "truncate v = max 0 (min 255 v) \<and>
     inRange (applyBrightness s p) \<and> inRange (applyContrast s p) \<and>
     inRange (applySaturation s p) \<and> inRange (applyGrayscale s p) \<and>
     inRange (applyInvert s p) \<and> inRange (applySepia s p) \<and> inRange (applyHue s p) \<and>
     inRange (adjustPixel s p) \<and>
     inRange (applyBrightness_m s p) \<and> inRange (applyContrast_m s p) \<and>
     inRange (applySaturation_m s p) \<and> inRange (applyGrayscale_m s p) \<and>
     inRange (applyInvert_m s p) \<and> inRange (applyHue_m s p) \<and> inRange (applySepia_m s p) \<and>
     inRange (adjustPixel_m s p) \<and>
     inRange (readPixel pixels k) \<and>
     inRange (readPixel (applyImageAdjustments s pixels) k) \<and>
     inRange (readPixel (applyImageAdjustments_m s pixels) k)"
proof -
  have "truncate v = max 0 (min 255 v)" by (simp add: truncate_def)
  then show ?thesis
    using assms(1) inRange_steps [of p s] inRange_steps_m [of p s] inRange_applyHue_m [of p s]
      inRange_adjustPixel [of p s] inRange_adjustPixel_m [of p s]
    by (simp add: inRange_readPixel)
qed

theorem channels_stay_in_range_witness:
  "inRange (250, 250, 250) \<and>
   adjustPixel (defaults\<lparr>brightness := 200, contrast := 200\<rparr>) (250, 250, 250) = (255, 255, 255) \<and>
   adjustPixel_m (defaults\<lparr>brightness := 200, contrast := 200\<rparr>) (250, 250, 250) = (255, 255, 255) \<and>
   inRange (adjustPixel (defaults\<lparr>brightness := 200, contrast := 200\<rparr>) (250, 250, 250)) \<and>
   inRange (adjustPixel_m (defaults\<lparr>brightness := 200, contrast := 200\<rparr>) (250, 250, 250))"
proof -
  have r: "inRange (250, 250, 250)" by (simp add: inRange_def)
  have c: "contrast (defaults\<lparr>brightness := 200, contrast := 200\<rparr>) \<noteq> 25900" by simp
  have a: "adjustPixel (defaults\<lparr>brightness := 200, contrast := 200\<rparr>) (250, 250, 250) =
      (255, 255, 255)"
    by (simp add: adjustPixel_def defaults_def step_defs contrastFactor_def truncate_def)
  have b: "adjustPixel_m (defaults\<lparr>brightness := 200, contrast := 200\<rparr>) (250, 250, 250) =
      (255, 255, 255)"
    by (simp add: adjustPixel_m_def defaults_def step_m_defs truncate_def)
  from channels_stay_in_range [OF r c, of 0 "[]" 0]
  have "inRange (adjustPixel (defaults\<lparr>brightness := 200, contrast := 200\<rparr>) (250, 250, 250)) \<and>
      inRange (adjustPixel_m (defaults\<lparr>brightness := 200, contrast := 200\<rparr>) (250, 250, 250))"
    by blast
  with r a b show ?thesis by blast
qed

section \<open>RGB to HSL and back\<close>

lemma hue2rgb_sector:
  "0 \<le> t \<Longrightarrow> t < 1 / 6 \<Longrightarrow> hue2rgb p q t = p + (q - p) * 6 * t"
  "1 / 6 \<le> t \<Longrightarrow> t < 1 / 2 \<Longrightarrow> hue2rgb p q t = q"
  "1 / 2 \<le> t \<Longrightarrow> t < 2 / 3 \<Longrightarrow> hue2rgb p q t = p + (q - p) * (2 / 3 - t) * 6"
  "2 / 3 \<le> t \<Longrightarrow> t \<le> 1 \<Longrightarrow> hue2rgb p q t = p"
  by (simp_all add: hue2rgb_def Let_def)

lemma hue2rgb_wrap:
  "- 1 \<le> t \<Longrightarrow> t < 0 \<Longrightarrow> hue2rgb p q t = hue2rgb p q (t + 1)"
  "1 < t \<Longrightarrow> t \<le> 2 \<Longrightarrow> hue2rgb p q t = hue2rgb p q (t - 1)"
  by (simp_all add: hue2rgb_def Let_def)

lemma sector_red_up:
  fixes R G B :: real
  assumes "B \<le> G" "G \<le> R" "B < R"
  defines "h \<equiv> ((G - B) / (R - B) + 0) / 6"
  shows "hue2rgb B R (h + 1 / 3) = R \<and> hue2rgb B R h = G \<and> hue2rgb B R (h - 1 / 3) = B"
proof -
  define x where "x = (G - B) / (R - B)"
  have x: "0 \<le> x" "x \<le> 1" "(R - B) * x = G - B"
    using assms by (simp_all add: x_def divide_le_eq)
  have h: "h = x / 6" by (simp add: h_def x_def)
  have r: "hue2rgb B R (h + 1 / 3) = R"
  proof (cases "x < 1")
    case True
    then show ?thesis using x by (simp add: h hue2rgb_sector(2))
  next
    case False
    then have "x = 1" using x by simp
    then show ?thesis by (simp add: h hue2rgb_sector(3) field_simps)
  qed
  have g: "hue2rgb B R h = G"
  proof (cases "x < 1")
    case True
    then have "hue2rgb B R h = B + (R - B) * 6 * (x / 6)"
      using x by (simp add: h hue2rgb_sector(1))
    also have "\<dots> = B + (R - B) * x" by simp
    finally show ?thesis using x(3) by simp
  next
    case False
    then have x1: "x = 1" using x by simp
    then have "G = R" using x(3) by simp
    then show ?thesis using x1 by (simp add: h hue2rgb_sector(2))
  qed
  have "hue2rgb B R (h - 1 / 3) = hue2rgb B R (h - 1 / 3 + 1)"
    using x by (intro hue2rgb_wrap(1)) (simp_all add: h)
  also have "\<dots> = B" using x by (intro hue2rgb_sector(4)) (simp_all add: h)
  finally show ?thesis using r g by simp
qed


lemma sector_red_down:
  fixes R G B :: real
  assumes "G < B" "B \<le> R"
  defines "h \<equiv> ((G - B) / (R - G) + 6) / 6"
  shows "hue2rgb G R (h + 1 / 3) = R \<and> hue2rgb G R h = G \<and> hue2rgb G R (h - 1 / 3) = B"
proof -
  define x where "x = (B - G) / (R - G)"
  have x: "0 < x" "x \<le> 1" "(R - G) * x = B - G"
    using assms by (simp_all add: x_def divide_le_eq)
  have "(G - B) / (R - G) = - x" by (simp add: x_def minus_divide_left)
  then have h: "h = 1 - x / 6" by (simp add: h_def)
  have "hue2rgb G R (h + 1 / 3) = hue2rgb G R (h + 1 / 3 - 1)"
    using x by (intro hue2rgb_wrap(2)) (simp_all add: h)
  also have "\<dots> = R" using x by (intro hue2rgb_sector(2)) (simp_all add: h)
  finally have r: "hue2rgb G R (h + 1 / 3) = R" .
  have g: "hue2rgb G R h = G" using x by (intro hue2rgb_sector(4)) (simp_all add: h)
  have "hue2rgb G R (h - 1 / 3) = G + (R - G) * (2 / 3 - (h - 1 / 3)) * 6"
    using x by (intro hue2rgb_sector(3)) (simp_all add: h)
  also have "\<dots> = G + (R - G) * x" by (simp add: h)
  finally show ?thesis using r g x(3) by simp
qed

lemma sector_green_down:
  fixes R G B :: real
  assumes "B < R" "R < G"
  defines "h \<equiv> ((B - R) / (G - B) + 2) / 6"
  shows "hue2rgb B G (h + 1 / 3) = R \<and> hue2rgb B G h = G \<and> hue2rgb B G (h - 1 / 3) = B"
proof -
  define x where "x = (R - B) / (G - B)"
  have x: "0 < x" "x < 1" "(G - B) * x = R - B"
    using assms by (simp_all add: x_def divide_less_eq)
  have "(B - R) / (G - B) = - x" by (simp add: x_def minus_divide_left)
  then have h: "h = 1 / 3 - x / 6" by (simp add: h_def)
  have "hue2rgb B G (h + 1 / 3) = B + (G - B) * (2 / 3 - (h + 1 / 3)) * 6"
    using x by (intro hue2rgb_sector(3)) (simp_all add: h)
  also have "\<dots> = B + (G - B) * x" by (simp add: h)
  finally have r: "hue2rgb B G (h + 1 / 3) = R" using x(3) by simp
  have g: "hue2rgb B G h = G" using x by (intro hue2rgb_sector(2)) (simp_all add: h)
  have "hue2rgb B G (h - 1 / 3) = hue2rgb B G (h - 1 / 3 + 1)"
    using x by (intro hue2rgb_wrap(1)) (simp_all add: h)
  also have "\<dots> = B" using x by (intro hue2rgb_sector(4)) (simp_all add: h)
  finally show ?thesis using r g by simp
qed

lemma sector_green_up:
  fixes R G B :: real
  assumes "R \<le> B" "B \<le> G" "R < G"
  defines "h \<equiv> ((B - R) / (G - R) + 2) / 6"
  shows "hue2rgb R G (h + 1 / 3) = R \<and> hue2rgb R G h = G \<and> hue2rgb R G (h - 1 / 3) = B"
proof -
  define x where "x = (B - R) / (G - R)"
  have x: "0 \<le> x" "x \<le> 1" "(G - R) * x = B - R"
    using assms by (simp_all add: x_def divide_le_eq)
  have h: "h = 1 / 3 + x / 6" unfolding h_def x_def [symmetric] by (simp add: add_divide_distrib)
  have r: "hue2rgb R G (h + 1 / 3) = R"
    using x by (intro hue2rgb_sector(4)) (simp_all add: h)
  have g: "hue2rgb R G h = G"
  proof (cases "x < 1")
    case True
    then show ?thesis using x by (simp add: h hue2rgb_sector(2))
  next
    case False
    then have "x = 1" using x by simp
    then show ?thesis by (simp add: h hue2rgb_sector(3) field_simps)
  qed
  have b: "hue2rgb R G (h - 1 / 3) = B"
  proof (cases "x < 1")
    case True
    then have "hue2rgb R G (h - 1 / 3) = R + (G - R) * 6 * (x / 6)"
      using x by (simp add: h hue2rgb_sector(1))
    also have "\<dots> = R + (G - R) * x" by simp
    finally show ?thesis using x(3) by simp
  next
    case False
    then have x1: "x = 1" using x by simp
    then have "B = G" using x(3) by simp
    then show ?thesis using x1 by (simp add: h hue2rgb_sector(2))
  qed
  show ?thesis using r g b by simp
qed

lemma sector_blue_up:
  fixes R G B :: real
  assumes "G < R" "R < B"
  defines "h \<equiv> ((R - G) / (B - G) + 4) / 6"
  shows "hue2rgb G B (h + 1 / 3) = R \<and> hue2rgb G B h = G \<and> hue2rgb G B (h - 1 / 3) = B"
proof -
  define x where "x = (R - G) / (B - G)"
  have x: "0 < x" "x < 1" "(B - G) * x = R - G"
    using assms by (simp_all add: x_def divide_less_eq)
  have h: "h = 2 / 3 + x / 6" unfolding h_def x_def [symmetric] by (simp add: add_divide_distrib)
  have "hue2rgb G B (h + 1 / 3) = hue2rgb G B (h + 1 / 3 - 1)"
    using x by (intro hue2rgb_wrap(2)) (simp_all add: h)
  also have "\<dots> = G + (B - G) * 6 * (h + 1 / 3 - 1)"
    using x by (intro hue2rgb_sector(1)) (simp_all add: h)
  also have "\<dots> = G + (B - G) * x" by (simp add: h)
  finally have r: "hue2rgb G B (h + 1 / 3) = R" using x(3) by simp
  have g: "hue2rgb G B h = G" using x by (intro hue2rgb_sector(4)) (simp_all add: h)
  have b: "hue2rgb G B (h - 1 / 3) = B"
    using x by (intro hue2rgb_sector(2)) (simp_all add: h)
  show ?thesis using r g b by simp
qed

lemma sector_blue_down:
  fixes R G B :: real
  assumes "R \<le> G" "G < B"
  defines "h \<equiv> ((R - G) / (B - R) + 4) / 6"
  shows "hue2rgb R B (h + 1 / 3) = R \<and> hue2rgb R B h = G \<and> hue2rgb R B (h - 1 / 3) = B"
proof -
  define x where "x = (G - R) / (B - R)"
  have x: "0 \<le> x" "x < 1" "(B - R) * x = G - R"
    using assms by (simp_all add: x_def divide_less_eq)
  have "(R - G) / (B - R) = - x" by (simp add: x_def minus_divide_left)
  then have h: "h = 2 / 3 - x / 6" by (simp add: h_def)
  have r: "hue2rgb R B (h + 1 / 3) = R"
    using x by (intro hue2rgb_sector(4)) (simp_all add: h)
  have g: "hue2rgb R B h = G"
  proof (cases "0 < x")
    case True
    then have "hue2rgb R B h = R + (B - R) * (2 / 3 - h) * 6"
      using x by (intro hue2rgb_sector(3)) (simp_all add: h)
    also have "\<dots> = R + (B - R) * x" by (simp add: h)
    finally show ?thesis using x(3) by simp
  next
    case False
    then have x0: "x = 0" using x by simp
    then have "G = R" using x(3) by simp
    then show ?thesis using x0 by (simp add: h hue2rgb_sector(4))
  qed
  have b: "hue2rgb R B (h - 1 / 3) = B"
    using x by (intro hue2rgb_sector(2)) (simp_all add: h)
  show ?thesis using r g b by simp
qed

lemma hue_roundtrip:
  fixes R G B :: real
  defines "mx \<equiv> max (max R G) B" and "mn \<equiv> min (min R G) B"
  assumes ne: "mx \<noteq> mn"
  defines "h \<equiv> (if mx = R then (G - B) / (mx - mn) + (if G < B then 6 else 0)
                  else if mx = G then (B - R) / (mx - mn) + 2
                  else (R - G) / (mx - mn) + 4) / 6"
  shows "hue2rgb mn mx (h + 1 / 3) = R \<and> hue2rgb mn mx h = G \<and> hue2rgb mn mx (h - 1 / 3) = B"
proof (cases "mx = R")
  case True
  then have le: "G \<le> R" "B \<le> R" by (auto simp: mx_def)
  show ?thesis
  proof (cases "G < B")
    case gb: True
    then have mn: "mn = G" using le by (auto simp: mn_def)
    have hh: "h = ((G - B) / (R - G) + 6) / 6" using True gb by (simp add: h_def mn)
    show ?thesis unfolding hh using sector_red_down [OF gb le(2)] True mn by simp
  next
    case gb: False
    then have mn: "mn = B" using le by (auto simp: mn_def)
    have lt: "B < R" using ne True mn le by simp
    have hh: "h = ((G - B) / (R - B) + 0) / 6" using True gb by (simp add: h_def mn)
    show ?thesis unfolding hh using sector_red_up [of B G R] gb le lt True mn by simp
  qed
next
  case nr: False
  show ?thesis
  proof (cases "mx = G")
    case True
    then have le: "R < G" "B \<le> G" using nr by (auto simp: mx_def)
    show ?thesis
    proof (cases "B < R")
      case br: True
      then have mn: "mn = B" using le by (auto simp: mn_def)
      have hh: "h = ((B - R) / (G - B) + 2) / 6" using True nr by (simp add: h_def mn)
      show ?thesis unfolding hh using sector_green_down [OF br le(1)] True mn by simp
    next
      case br: False
      then have mn: "mn = R" using le by (auto simp: mn_def)
      have hh: "h = ((B - R) / (G - R) + 2) / 6" using True nr by (simp add: h_def mn)
      show ?thesis unfolding hh using sector_green_up [of R B G] br le True mn by simp
    qed
  next
    case ng: False
    then have mxb: "mx = B" and le: "R < B" "G < B" using nr by (auto simp: mx_def)
    show ?thesis
    proof (cases "G < R")
      case gr: True
      then have mn: "mn = G" using le by (auto simp: mn_def)
      have hh: "h = ((R - G) / (B - G) + 4) / 6" using nr ng by (simp add: h_def mn mxb)
      show ?thesis unfolding hh using sector_blue_up [OF gr le(1)] mxb mn by simp
    next
      case gr: False
      then have mn: "mn = R" using le by (auto simp: mn_def)
      have hh: "h = ((R - G) / (B - R) + 4) / 6" using nr ng by (simp add: h_def mn mxb)
      show ?thesis unfolding hh using sector_blue_down [of R G B] gr le mxb mn by simp
    qed
  qed
qed

lemma lightness_pq:
  fixes mx mn :: real
  assumes "0 \<le> mn" "mn < mx" "mx \<le> 1"
  defines "l \<equiv> (mx + mn) / 2"
  defines "s \<equiv> (if l > 1 / 2 then (mx - mn) / (2 - mx - mn) else (mx - mn) / (mx + mn))"
  shows "s \<noteq> 0 \<and> (if l < 1 / 2 then l * (1 + s) else l + s - l * s) = mx"
proof (cases "l > 1 / 2")
  case True
  have pos: "0 < 2 - mx - mn" using assms by simp
  have s: "s = (mx - mn) / (2 - mx - mn)" using True by (simp add: s_def)
  have "s * (2 - mx - mn) = mx - mn" using pos by (simp add: s)
  then have e: "s * (1 - l) = (mx - mn) / 2" by (simp add: l_def algebra_simps)
  have "l + s - l * s = l + s * (1 - l)" by (simp add: algebra_simps)
  also have "\<dots> = mx" unfolding e by (simp add: l_def field_simps)
  finally have "l + s - l * s = mx" .
  moreover have "s \<noteq> 0" using pos assms by (simp add: s)
  ultimately show ?thesis using True by simp
next
  case False
  have pos: "0 < mx + mn" using assms by simp
  have s: "s = (mx - mn) / (mx + mn)" using False by (simp add: s_def)
  have sm: "s * (mx + mn) = mx - mn" using pos by (simp add: s)
  have "s * l = (s * (mx + mn)) / 2" by (simp add: l_def)
  then have e: "s * l = (mx - mn) / 2" unfolding sm .
  have sn: "s \<noteq> 0" using pos assms by (simp add: s)
  show ?thesis
  proof (cases "l < 1 / 2")
    case True
    have "l * (1 + s) = l + s * l" by (simp add: algebra_simps)
    also have "\<dots> = mx" unfolding e by (simp add: l_def field_simps)
    finally show ?thesis using True sn by simp
  next
    case f: False
    then have l: "l = 1 / 2" using False by simp
    then have sum: "mx + mn = 1" by (simp add: l_def)
    have sd: "s = mx - mn" using s sum by simp
    have "l + s - l * s = 1 / 2 + s / 2" by (simp add: l)
    also have "\<dots> = mx" using sd sum by linarith
    finally show ?thesis using f sn by simp
  qed
qed

lemma hue_range:
  fixes R G B :: real
  defines "mx \<equiv> max (max R G) B" and "mn \<equiv> min (min R G) B"
  assumes ne: "mx \<noteq> mn"
  defines "h \<equiv> (if mx = R then (G - B) / (mx - mn) + (if G < B then 6 else 0)
                  else if mx = G then (B - R) / (mx - mn) + 2
                  else (R - G) / (mx - mn) + 4) / 6"
  shows "0 \<le> h \<and> h < 1"
proof -
  have d: "0 < mx - mn" using ne by (auto simp: mx_def mn_def)
  have rng: "\<And>a b. mn \<le> a \<Longrightarrow> a \<le> mx \<Longrightarrow> mn \<le> b \<Longrightarrow> b \<le> mx \<Longrightarrow>
      - 1 \<le> (a - b) / (mx - mn) \<and> (a - b) / (mx - mn) \<le> 1"
    using d by (simp add: divide_le_eq le_divide_eq)
  have neg: "\<And>a b. a < b \<Longrightarrow> (a - b) / (mx - mn) < 0"
    using d by (simp add: divide_less_eq)
  have pos: "\<And>a b. \<not> a < b \<Longrightarrow> 0 \<le> (a - b) / (mx - mn)"
    using d by (simp add: le_divide_eq)
  have b: "mn \<le> R" "R \<le> mx" "mn \<le> G" "G \<le> mx" "mn \<le> B" "B \<le> mx"
    by (auto simp: mx_def mn_def)
  have gb: "- 1 \<le> (G - B) / (mx - mn) \<and> (G - B) / (mx - mn) \<le> 1"
    and br: "- 1 \<le> (B - R) / (mx - mn) \<and> (B - R) / (mx - mn) \<le> 1"
    and rg: "- 1 \<le> (R - G) / (mx - mn) \<and> (R - G) / (mx - mn) \<le> 1"
    using rng b by blast+
  show ?thesis
    unfolding h_def using gb br rg neg [of G B] pos [of G B] by auto
qed

lemma hue2rgb_jsRem:
  assumes "- 1 < x" "x < 2"
  shows "hue2rgb p q (jsRem x 1) = hue2rgb p q x"
proof -
  consider "x < 0" | "0 \<le> x" "x < 1" | "x = 1" | "1 < x" by linarith
  then show ?thesis
  proof cases
    case 1
    then have "\<lceil>x\<rceil> = 0" using assms by (simp add: ceiling_eq_iff)
    then show ?thesis using 1 by (simp add: jsRem_def)
  next
    case 2
    then have "\<lfloor>x\<rfloor> = 0" by (simp add: floor_eq_iff)
    then show ?thesis using 2 by (simp add: jsRem_def)
  next
    case 3
    then show ?thesis by (simp add: jsRem_def hue2rgb_def)
  next
    case 4
    then have "\<lfloor>x\<rfloor> = 1" using assms by (simp add: floor_eq_iff)
    then have "jsRem x 1 = x - 1" using 4 by (simp add: jsRem_def)
    then show ?thesis using 4 assms by (simp add: hue2rgb_wrap(2))
  qed
qed

lemma roundTrip_parts:
  fixes r g b :: real
  assumes "0 \<le> r" "r \<le> 255" "0 \<le> g" "g \<le> 255" "0 \<le> b" "b \<le> 255"
  defines "R \<equiv> r / 255" and "G \<equiv> g / 255" and "B \<equiv> b / 255"
  defines "mx \<equiv> max (max R G) B" and "mn \<equiv> min (min R G) B"
  defines "l \<equiv> (mx + mn) / 2"
  defines "s \<equiv> (if l > 1 / 2 then (mx - mn) / (2 - mx - mn) else (mx - mn) / (mx + mn))"
  defines "h \<equiv> (if mx = R then (G - B) / (mx - mn) + (if G < B then 6 else 0)
                  else if mx = G then (B - R) / (mx - mn) + 2
                  else (R - G) / (mx - mn) + 4) / 6"
  defines "q \<equiv> (if l < 1 / 2 then l * (1 + s) else l + s - l * s)"
  shows "mx = mn \<Longrightarrow> R = l \<and> G = l \<and> B = l"
    and "mx \<noteq> mn \<Longrightarrow> s \<noteq> 0 \<and> 0 \<le> h \<and> h < 1 \<and>
           hue2rgb (2 * l - q) q (h + 1 / 3) = R \<and> hue2rgb (2 * l - q) q h = G \<and>
           hue2rgb (2 * l - q) q (h - 1 / 3) = B"
    and "0 \<le> l \<and> l \<le> 1"
proof -
  have bd: "0 \<le> mn" "mn \<le> mx" "mx \<le> 1"
    using assms(1-6) by (auto simp: mx_def mn_def R_def G_def B_def)
  show "0 \<le> l \<and> l \<le> 1" using bd by (simp add: l_def)
  show "R = l \<and> G = l \<and> B = l" if "mx = mn"
    using that by (auto simp: l_def mx_def mn_def)
  show "s \<noteq> 0 \<and> 0 \<le> h \<and> h < 1 \<and>
           hue2rgb (2 * l - q) q (h + 1 / 3) = R \<and> hue2rgb (2 * l - q) q h = G \<and>
           hue2rgb (2 * l - q) q (h - 1 / 3) = B" if ne: "mx \<noteq> mn"
  proof -
    have lt: "mn < mx" using bd ne by simp
    have pq: "s \<noteq> 0 \<and> q = mx"
      using lightness_pq [OF bd(1) lt bd(3)] unfolding q_def s_def l_def by simp
    have "2 * l = mx + mn" by (simp add: l_def)
    with pq have p: "2 * l - q = mn" by linarith
    have hr: "0 \<le> h \<and> h < 1"
      using hue_range [of R G B] ne unfolding h_def mx_def mn_def by simp
    have "hue2rgb mn mx (h + 1 / 3) = R \<and> hue2rgb mn mx h = G \<and> hue2rgb mn mx (h - 1 / 3) = B"
      using hue_roundtrip [of R G B] ne unfolding h_def mx_def mn_def by simp
    then show ?thesis using pq p hr by simp
  qed
qed

lemma roundTrip_exact:
  assumes "0 \<le> r" "r \<le> 255" "0 \<le> g" "g \<le> 255" "0 \<le> b" "b \<le> 255"
  shows "roundTrip r g b = (r, g, b)"
proof -
  note parts = roundTrip_parts [OF assms]
  let ?mx = "max (max (r / 255) (g / 255)) (b / 255)"
  let ?mn = "min (min (r / 255) (g / 255)) (b / 255)"
  have t: "truncate (r / 255 * 255) = r" "truncate (g / 255 * 255) = g"
    "truncate (b / 255 * 255) = b"
    using assms by (simp_all add: truncate_id)
  show ?thesis
  proof (cases "?mx = ?mn")
    case True
    then have "rgbToHsl r g b = (0, 0, (?mx + ?mn) / 2)"
      by (simp add: rgbToHsl_def Let_def)
    moreover have "hslToRgb 0 0 ((?mx + ?mn) / 2) =
        (truncate ((?mx + ?mn) / 2 * 255), truncate ((?mx + ?mn) / 2 * 255),
         truncate ((?mx + ?mn) / 2 * 255))"
      by (simp add: hslToRgb_def)
    ultimately show ?thesis
      using parts(1) [OF True] t by (simp add: roundTrip_def)
  next
    case False
    note p = parts(2) [OF False]
    have "roundTrip r g b =
        (truncate (r / 255 * 255), truncate (g / 255 * 255), truncate (b / 255 * 255))"
      unfolding roundTrip_def rgbToHsl_def hslToRgb_def Let_def
      using False p by (simp only: if_False prod.case simp_thms)
    then show ?thesis using t by simp
  qed
qed

lemma hslToRgb_m_unfold:
  assumes "s \<noteq> 0"
  shows "hslToRgb_m (hh * 60) (s * 100) (l * 100) =
     (let q = (if l < 1 / 2 then l * (1 + s) else l + s - l * s); p = 2 * l - q
      in (real_of_int (Math_round (hue2rgb p q (jsRem (hh / 6 + 1 / 3) 1) * 255)),
          real_of_int (Math_round (hue2rgb p q (jsRem (hh / 6) 1) * 255)),
          real_of_int (Math_round (hue2rgb p q (jsRem (hh / 6 - 1 / 3) 1) * 255))))"
proof -
  have e: "s * 100 / 100 = s" "l * 100 / 100 = l" "hh * 60 / 360 = hh / 6" by simp_all
  show ?thesis
    unfolding hslToRgb_m_def e Let_def using assms by (simp only: if_False)
qed

lemma roundTrip_m_round:
  fixes r g b :: real
  assumes "0 \<le> r" "r \<le> 255" "0 \<le> g" "g \<le> 255" "0 \<le> b" "b \<le> 255"
  defines "R \<equiv> r / 255" and "G \<equiv> g / 255" and "B \<equiv> b / 255"
  defines "mx \<equiv> max (max R G) B" and "mn \<equiv> min (min R G) B"
  defines "l \<equiv> (mx + mn) / 2"
  defines "s \<equiv> (if l > 1 / 2 then (mx - mn) / (2 - mx - mn) else (mx - mn) / (mx + mn))"
  defines "hh \<equiv> (if mx = R then (G - B) / (mx - mn) + (if G < B then 6 else 0)
                  else if mx = G then (B - R) / (mx - mn) + 2
                  else (R - G) / (mx - mn) + 4)"
  defines "q \<equiv> (if l < 1 / 2 then l * (1 + s) else l + s - l * s)"
  shows "roundTrip_m r g b =
     (real_of_int (Math_round r), real_of_int (Math_round g), real_of_int (Math_round b))"
proof -
  have rgb: "R * 255 = r" "G * 255 = g" "B * 255 = b" by (simp_all add: R_def G_def B_def)
  show ?thesis
  proof (cases "mx = mn")
    case True
    then have eq: "max (max (r / 255) (g / 255)) (b / 255) = min (min (r / 255) (g / 255)) (b / 255)"
      unfolding mx_def mn_def R_def G_def B_def .
    have a: "R = l \<and> G = l \<and> B = l"
      unfolding l_def mx_def mn_def R_def G_def B_def
      by (rule roundTrip_parts(1) [OF assms(1-6) eq])
    have "rgbToHsl_m r g b = (0, 0 * 100, l * 100)"
      unfolding rgbToHsl_m_def Let_def l_def mx_def mn_def R_def G_def B_def
      using eq by (simp only: if_True simp_thms)
    moreover have "hslToRgb_m 0 (0 * 100) (l * 100) =
        (real_of_int (Math_round (l * 255)), real_of_int (Math_round (l * 255)),
         real_of_int (Math_round (l * 255)))"
      by (simp add: hslToRgb_m_def Let_def)
    ultimately show ?thesis
      using a rgb by (simp add: roundTrip_m_def)
  next
    case False
    then have ne: "max (max (r / 255) (g / 255)) (b / 255) \<noteq> min (min (r / 255) (g / 255)) (b / 255)"
      unfolding mx_def mn_def R_def G_def B_def .
    have p: "s \<noteq> 0 \<and> 0 \<le> hh / 6 \<and> hh / 6 < 1 \<and>
           hue2rgb (2 * l - q) q (hh / 6 + 1 / 3) = R \<and> hue2rgb (2 * l - q) q (hh / 6) = G \<and>
           hue2rgb (2 * l - q) q (hh / 6 - 1 / 3) = B"
      unfolding q_def hh_def s_def l_def mx_def mn_def R_def G_def B_def
      by (rule roundTrip_parts(2) [OF assms(1-6) ne])
    have e1: "rgbToHsl_m r g b = (hh * 60, s * 100, l * 100)"
      unfolding rgbToHsl_m_def Let_def hh_def s_def l_def mx_def mn_def R_def G_def B_def
      using ne by (simp only: if_False)
    have j: "hue2rgb (2 * l - q) q (jsRem (hh / 6 + 1 / 3) 1) = R"
      "hue2rgb (2 * l - q) q (jsRem (hh / 6) 1) = G"
      "hue2rgb (2 * l - q) q (jsRem (hh / 6 - 1 / 3) 1) = B"
      using p by (simp_all add: hue2rgb_jsRem)
    have "hslToRgb_m (hh * 60) (s * 100) (l * 100) =
        (real_of_int (Math_round (R * 255)), real_of_int (Math_round (G * 255)),
         real_of_int (Math_round (B * 255)))"
      using hslToRgb_m_unfold [of s hh l] p unfolding Let_def q_def [symmetric] j by blast
    then show ?thesis
      unfolding roundTrip_m_def e1 rgb by simp
  qed
qed

lemma Math_round_near: "\<bar>real_of_int (Math_round x) - x\<bar> \<le> 1"
  unfolding Math_round_def by linarith

lemma Math_round_byteVal: "real_of_int (Math_round (byteVal w)) = byteVal w"
proof -
  have "\<lfloor>real (unat w) + 1 / 2\<rfloor> = int (unat w)" by linarith
  then show ?thesis by (simp add: Math_round_def byteVal_def del: of_nat_unat)
qed

text \<open>
  Claim C8. For channels in the interval from 0 to 255, \<^verbatim>\<open>hslToRgb(rgbToHsl(r, g, b))\<close> gives
  back \<open>(r, g, b)\<close> within 1 for each channel, in the public script and in the module. In
  the public script the result is \<open>(r, g, b)\<close> itself; in the module each channel is
  rounded to the nearest integer, so a triple of bytes comes back as it is. For an
  achromatic colour the channels come back exactly.
\<close>

theorem hsl_round_trip:
  assumes "inRange (r, g, b)"
  shows "roundTrip r g b = (r, g, b) \<and>
         within1 (roundTrip r g b) (r, g, b) \<and>
         within1 (roundTrip_m r g b) (r, g, b) \<and>
         roundTrip r r r = (r, r, r) \<and>
         roundTrip_m (byteVal w) (byteVal w) (byteVal w) = (byteVal w, byteVal w, byteVal w)"
proof -
  have a: "0 \<le> r" "r \<le> 255" "0 \<le> g" "g \<le> 255" "0 \<le> b" "b \<le> 255"
    using assms by (simp_all add: inRange_def)
  have w: "0 \<le> byteVal w" "byteVal w \<le> 255" using byteVal_range by simp_all
  have 1: "roundTrip r g b = (r, g, b)" by (rule roundTrip_exact [OF a])
  have 2: "within1 (roundTrip_m r g b) (r, g, b)"
    unfolding roundTrip_m_round [OF a] by (simp add: within1_def Math_round_near)
  have 3: "roundTrip r r r = (r, r, r)" by (rule roundTrip_exact [OF a(1,2) a(1,2) a(1,2)])
  have 4: "roundTrip_m (byteVal w) (byteVal w) (byteVal w) = (byteVal w, byteVal w, byteVal w)"
    unfolding roundTrip_m_round [OF w w w] by (simp add: Math_round_byteVal)
  show ?thesis using 1 2 3 4 by (simp add: within1_def)
qed

theorem hsl_round_trip_witness:
  "inRange (10, 200, 30) \<and> roundTrip 10 200 30 = (10, 200, 30) \<and>
   roundTrip_m 10 200 30 = (10, 200, 30)"
proof -
  have r: "inRange (10, 200, 30)" by (simp add: inRange_def)
  have m: "roundTrip_m 10 200 30 = (10, 200, 30)"
    by (simp add: roundTrip_m_def rgbToHsl_m_def hslToRgb_m_def hue2rgb_def jsRem_def
        Math_round_def Let_def)
  from hsl_round_trip [OF r] have "roundTrip 10 200 30 = (10, 200, 30)" by blast
  with r m show ?thesis by blast
qed

section \<open>Glyph mapping\<close>

lemma cellLoop_text:
  "fst (cellLoop chars pixels originalPixels col ew y x ascii colorMap) =
     ascii @ concat (map (\<lambda>x'. cellGlyph chars pixels (nat ((y * ew + x') * 4))) [x..ew - 1])"
proof (induction chars pixels originalPixels col ew y x ascii colorMap rule: cellLoop.induct)
  case (1 chars pixels originalPixels col ew y x ascii colorMap)
  show ?case
  proof (cases "x < ew")
    case True
    then have u: "[x..ew - 1] = x # [x + 1..ew - 1]" by (simp add: upto_rec1)
    have step: "cellLoop chars pixels originalPixels col ew y x ascii colorMap =
        cellLoop chars pixels originalPixels col ew y (x + 1)
          (ascii @ cellGlyph chars pixels (nat ((y * ew + x) * 4)))
          (if col then
             colorMap[nat y := (colorMap ! nat y)[nat x :=
               Some (rd originalPixels (nat ((y * ew + x) * 4)),
                     rd originalPixels (nat ((y * ew + x) * 4) + 1),
                     rd originalPixels (nat ((y * ew + x) * 4) + 2))]]
           else colorMap)"
      using True by (subst cellLoop.simps) (simp only: Let_def if_True)
    show ?thesis
      unfolding step "1.IH" [OF True refl] u by simp
  next
    case False
    then show ?thesis by (subst cellLoop.simps) simp
  qed
qed

lemma rowLoop_text:
  "fst (rowLoop chars pixels originalPixels col ew eh y ascii colorMap) =
     ascii @ concat (map (\<lambda>y'.
        concat (map (\<lambda>x'. cellGlyph chars pixels (nat ((y' * ew + x') * 4))) [0..ew - 1]) @
        newline) [y..eh - 1])"
proof (induction chars pixels originalPixels col ew eh y ascii colorMap rule: rowLoop.induct)
  case (1 chars pixels originalPixels col ew eh y ascii colorMap)
  show ?case
  proof (cases "y < eh")
    case True
    then have u: "[y..eh - 1] = y # [y + 1..eh - 1]" by (simp add: upto_rec1)
    obtain a c where cl: "cellLoop chars pixels originalPixels col ew y 0 ascii colorMap = (a, c)"
      by (cases "cellLoop chars pixels originalPixels col ew y 0 ascii colorMap") auto
    have a: "a = ascii @ concat (map (\<lambda>x'. cellGlyph chars pixels (nat ((y * ew + x') * 4)))
        [0..ew - 1])"
      using cellLoop_text [of chars pixels originalPixels col ew y 0 ascii colorMap] cl by simp
    show ?thesis
      using True "1.IH" [OF True cl [symmetric]] cl
      by (subst rowLoop.simps) (simp add: u a)
  next
    case False
    then show ?thesis by (subst rowLoop.simps) simp
  qed
qed

lemma cellLoop_m_text:
  "fst (cellLoop_m chars pixels col ew y x row rowColors) =
     row @ concat (map (\<lambda>x'. cellGlyph_m chars pixels (nat ((y * ew + x') * 4))) [x..ew - 1])"
proof (induction chars pixels col ew y x row rowColors rule: cellLoop_m.induct)
  case (1 chars pixels col ew y x row rowColors)
  show ?case
  proof (cases "x < ew")
    case True
    then have u: "[x..ew - 1] = x # [x + 1..ew - 1]" by (simp add: upto_rec1)
    have step: "cellLoop_m chars pixels col ew y x row rowColors =
        cellLoop_m chars pixels col ew y (x + 1)
          (row @ cellGlyph_m chars pixels (nat ((y * ew + x) * 4)))
          (if col then
             rowColors @ [Some (rd pixels (nat ((y * ew + x) * 4)),
                                rd pixels (nat ((y * ew + x) * 4) + 1),
                                rd pixels (nat ((y * ew + x) * 4) + 2))]
           else rowColors)"
      using True by (subst cellLoop_m.simps) (simp only: Let_def if_True)
    show ?thesis
      unfolding step "1.IH" [OF True refl] u by simp
  next
    case False
    then show ?thesis by (subst cellLoop_m.simps) simp
  qed
qed

lemma rowLoop_m_text:
  "fst (rowLoop_m chars pixels col ew eh y ascii colorMap) =
     ascii @ concat (map (\<lambda>y'.
        concat (map (\<lambda>x'. cellGlyph_m chars pixels (nat ((y' * ew + x') * 4))) [0..ew - 1]) @
        newline) [y..eh - 1])"
proof (induction chars pixels col ew eh y ascii colorMap rule: rowLoop_m.induct)
  case (1 chars pixels col ew eh y ascii colorMap)
  show ?case
  proof (cases "y < eh")
    case True
    then have u: "[y..eh - 1] = y # [y + 1..eh - 1]" by (simp add: upto_rec1)
    obtain a c where cl: "cellLoop_m chars pixels col ew y 0 [] [] = (a, c)"
      by (cases "cellLoop_m chars pixels col ew y 0 [] []") auto
    have a: "a = concat (map (\<lambda>x'. cellGlyph_m chars pixels (nat ((y * ew + x') * 4)))
        [0..ew - 1])"
      using cellLoop_m_text [of chars pixels col ew y 0 "[]" "[]"] cl by simp
    show ?thesis
      using True "1.IH" [OF True cl [symmetric]] cl
      by (subst rowLoop_m.simps) (simp add: u a)
  next
    case False
    then show ?thesis by (subst rowLoop_m.simps) simp
  qed
qed

lemma double_values:
  "double 0 = 0" "double 1 = 1" "double 2 = 2" "double (1 / 2) = 1 / 2" "double (1 / 4) = 1 / 4"
  by (simp_all add: double_def binade.simps roundHalfEven_def Let_def)

lemma roundHalfEven_nonneg: "0 \<le> x \<Longrightarrow> 0 \<le> roundHalfEven x"
  by (simp add: roundHalfEven_def Let_def)

lemma double_nonneg: "0 \<le> x \<Longrightarrow> 0 \<le> double x"
  unfolding double_def Let_def
  by (intro mult_nonneg_nonneg of_int_nonneg roundHalfEven_nonneg divide_nonneg_nonneg) simp_all

text \<open>
  The rounding to a double moves a number below 256 by at most \<open>2 powi - 46\<close>; so the sum that
  the public script rounds is the weighted sum of the three bytes, but for \<open>2 powi - 40\<close>.
\<close>

lemma binade_bounds:
  "0 < x \<Longrightarrow> 2 powi binade x \<le> x \<and> x < 2 powi (binade x + 1)"
proof (induction x rule: binade.induct)
  case (1 x)
  have pos: "\<not> x \<le> 0" using "1.prems" by simp
  show ?case
  proof (cases "2 \<le> x")
    case True
    have b: "binade x = binade (x / 2) + 1"
      using pos True by (subst binade.simps) simp
    have "0 < x / 2" using "1.prems" by simp
    from "1.IH"(1) [OF pos True this]
    have ih: "2 powi binade (x / 2) \<le> x / 2" "x / 2 < 2 powi (binade (x / 2) + 1)"
      by simp_all
    have p: "(2::real) powi (binade (x / 2) + 1) = 2 powi binade (x / 2) * 2"
      "(2::real) powi (binade (x / 2) + 1 + 1) = 2 powi (binade (x / 2) + 1) * 2"
      by (rule power_int_add_1, simp)+
    show ?thesis unfolding b using ih p by linarith
  next
    case False
    show ?thesis
    proof (cases "x < 1")
      case True
      have b: "binade x = binade (x * 2) - 1"
        using pos False True by (subst binade.simps) simp
      have "0 < x * 2" using "1.prems" by simp
      from "1.IH"(2) [OF pos False True this]
      have ih: "2 powi binade (x * 2) \<le> x * 2" "x * 2 < 2 powi (binade (x * 2) + 1)"
        by simp_all
      have p: "(2::real) powi (binade (x * 2) - 1 + 1) = 2 powi (binade (x * 2) - 1) * 2"
        by (rule power_int_add_1) simp
      have p': "(2::real) powi (binade (x * 2) + 1) = 2 powi binade (x * 2) * 2"
        by (rule power_int_add_1) simp
      have q: "binade (x * 2) - 1 + 1 = binade (x * 2)" by simp
      show ?thesis unfolding b q using ih p [unfolded q] p' by linarith
    next
      case F: False
      have b: "binade x = 0"
        using pos False F by (subst binade.simps) simp
      show ?thesis unfolding b using False F by simp
    qed
  qed
qed

lemma roundHalfEven_error: "\<bar>real_of_int (roundHalfEven y) - y\<bar> \<le> 1 / 2"
  unfolding roundHalfEven_def Let_def by (auto; linarith)

lemma double_error:
  assumes "\<bar>x\<bar> < 256"
  shows "\<bar>double x - x\<bar> \<le> 1 / 70368744177664"
proof -
  define e where "e = max (binade \<bar>x\<bar>) (- 1022)"
  define u :: real where "u = 2 powi (e - 52)"
  have u: "0 < u" by (simp add: u_def)
  have "binade \<bar>x\<bar> < 8"
  proof (cases "x = 0")
    case True
    then show ?thesis by (simp add: binade.simps)
  next
    case False
    then have "0 < \<bar>x\<bar>" by simp
    from binade_bounds [OF this] assms have "(2::real) powi binade \<bar>x\<bar> < 2 powi 8"
      by simp
    then show ?thesis by (rule power_int_le_imp_less_exp [rotated]) simp_all
  qed
  then have "e - 52 \<le> - 45" by (simp add: e_def)
  then have "u \<le> 2 powi (- 45)"
    unfolding u_def by (intro power_int_increasing) simp_all
  then have ub: "u \<le> 1 / 35184372088832" by (simp add: power_int_minus field_simps)
  have d: "double x = real_of_int (roundHalfEven (x / u)) * u"
    by (simp add: double_def Let_def e_def u_def)
  have "double x - x = (real_of_int (roundHalfEven (x / u)) - x / u) * u"
    unfolding d using u by (simp add: field_simps)
  then have "\<bar>double x - x\<bar> = \<bar>real_of_int (roundHalfEven (x / u)) - x / u\<bar> * u"
    using u by (simp add: abs_mult)
  also have "\<dots> \<le> 1 / 2 * u"
    using roundHalfEven_error [of "x / u"] u by (intro mult_right_mono) simp_all
  also have "\<dots> \<le> 1 / 70368744177664" using ub by simp
  finally show ?thesis .
qed

lemma literal_values:
  "double 0.299 = 5386305154335113 / 18014398509481984"
  "double 0.587 = 2643612981266481 / 4503599627370496"
  "double 0.114 = 8214565720323785 / 72057594037927936"
  by (simp_all add: double_def binade.simps roundHalfEven_def Let_def)

lemma weighted_sum_error:
  assumes "0 \<le> r" "r \<le> 255" "0 \<le> g" "g \<le> 255" "0 \<le> b" "b \<le> 255"
  shows "\<bar>double (double (double (double 0.299 * r) + double (double 0.587 * g)) +
              double (double 0.114 * b)) -
         (0.299 * r + 0.587 * g + 0.114 * b)\<bar> \<le> 1 / 2 ^ 40"
proof -
  define p1 where "p1 = double (5386305154335113 / 18014398509481984 * r)"
  define p2 where "p2 = double (2643612981266481 / 4503599627370496 * g)"
  define p3 where "p3 = double (8214565720323785 / 72057594037927936 * b)"
  define s1 where "s1 = double (p1 + p2)"
  define s2 where "s2 = double (s1 + p3)"
  have e1: "\<bar>p1 - 5386305154335113 / 18014398509481984 * r\<bar> \<le> 1 / 70368744177664"
    unfolding p1_def using assms by (intro double_error) linarith
  have e2: "\<bar>p2 - 2643612981266481 / 4503599627370496 * g\<bar> \<le> 1 / 70368744177664"
    unfolding p2_def using assms by (intro double_error) linarith
  have e3: "\<bar>p3 - 8214565720323785 / 72057594037927936 * b\<bar> \<le> 1 / 70368744177664"
    unfolding p3_def using assms by (intro double_error) linarith
  have e4: "\<bar>s1 - (p1 + p2)\<bar> \<le> 1 / 70368744177664"
    unfolding s1_def using assms e1 e2 by (intro double_error) linarith
  have e5: "\<bar>s2 - (s1 + p3)\<bar> \<le> 1 / 70368744177664"
    unfolding s2_def using assms e1 e2 e3 e4 by (intro double_error) linarith
  have "\<bar>s2 - (299 / 1000 * r + 587 / 1000 * g + 114 / 1000 * b)\<bar> \<le> 1 / 1099511627776"
    using assms e1 e2 e3 e4 e5 by linarith
  then show ?thesis
    unfolding literal_values p1_def [symmetric] p2_def [symmetric] p3_def [symmetric]
      s1_def [symmetric] s2_def [symmetric]
    by simp
qed

lemma Math_round_error: "\<bar>real_of_int (Math_round y) - y\<bar> \<le> 1 / 2"
  unfolding Math_round_def by linarith

lemma cellBrightness_weighted:
  "\<bar>real_of_int (cellBrightness r g b) -
      (0.299 * byteVal r + 0.587 * byteVal g + 0.114 * byteVal b)\<bar> \<le> 1 / 2 + 1 / 2 ^ 40"
  using weighted_sum_error [of "byteVal r" "byteVal g" "byteVal b"]
    byteVal_range [of r] byteVal_range [of g] byteVal_range [of b]
    Math_round_error [of "double (double (double (double 0.299 * byteVal r) +
      double (double 0.587 * byteVal g)) + double (double 0.114 * byteVal b))"]
  unfolding cellBrightness_def by linarith

lemma cellBrightness_examples:
  "cellBrightness 0 0 0 = 0" "cellBrightness 255 255 255 = 255" "cellBrightness 255 0 0 = 76"
  "cellBrightness 0 204 68 = 127"
  by (simp_all add: cellBrightness_def byteVal_def Math_round_def)
    (simp_all add: double_def binade.simps roundHalfEven_def Let_def)

text \<open>
  Two grids whose dimension is a tie in the reals and not in doubles: a width of 25
  stretched to 58 percent has 14 columns, and an image of 11 by 15 pixels at width 11 has 7
  rows.
\<close>

lemma grid_examples:
  "effectiveWidth (defaults\<lparr>width := 25, stretchWidth := 58\<rparr>) = 14"
  "resolvedHeight \<lparr> loads = True, naturalWidth = 11, naturalHeight = 15, canvasData = cd,
       createAsciiImage = ci, createAsciiImage_m = cm \<rparr> (defaults\<lparr>width := 11\<rparr>) = 7"
  by (simp_all add: effectiveWidth_def resolvedHeight_def defaults_def Math_round_def)
    (simp_all add: double_def binade.simps roundHalfEven_def Let_def)

lemma rowLoop_grid:
  "fst (rowLoop chars pixels originalPixels col ew eh 0 [] colorMap) =
     gridText (cellGlyph chars pixels) ew eh"
  by (simp add: rowLoop_text gridText_def)

lemma rowLoop_m_grid:
  "fst (rowLoop_m chars pixels col ew eh 0 [] []) = gridText (cellGlyph_m chars pixels) ew eh"
  by (simp add: rowLoop_m_text gridText_def)

lemma asciiText_grid:
  "asciiText c img opts =
     (case canvasData img (gridWidth c img opts) (gridHeight c img opts) of
        Inl e \<Rightarrow> Inl e
      | Inr px \<Rightarrow>
          (case initColorMap (colorized opts) (gridWidth c img opts) (gridHeight c img opts) of
             Inl e \<Rightarrow> Inl e
           | Inr cm \<Rightarrow>
               Inr (gridText (cellGlyph (selectChars opts)
                      (applyImageAdjustments (mergedSettings c img opts) px))
                    (gridWidth c img opts) (gridHeight c img opts))))"
proof -
  have col: "colorized (mergedSettings c img opts) = colorized opts"
    by (simp add: mergedSettings_def Let_def)
  have sel: "selectChars (mergedSettings c img opts) = selectChars opts"
    by (simp add: mergedSettings_def selectChars_def Let_def)
  show ?thesis
    unfolding asciiText_def asciiGrid_def gridWidth_def gridHeight_def Let_def col sel
    by (simp add: rowLoop_grid split: sum.splits)
qed

lemma asciiText_m_grid:
  "asciiText_m c img opts =
     (case canvasData img (gridWidth c img opts) (gridHeight c img opts) of
        Inl e \<Rightarrow> Inl e
      | Inr px \<Rightarrow>
          Inr (gridText (cellGlyph_m (selectChars_m opts)
                 (applyImageAdjustments_m (mergedSettings c img opts) px))
               (gridWidth c img opts) (gridHeight c img opts)))"
proof -
  have sel: "selectChars_m (mergedSettings c img opts) = selectChars_m opts"
    by (simp add: mergedSettings_def selectChars_m_def Let_def)
  show ?thesis
    unfolding asciiText_m_def asciiGrid_m_def gridWidth_def gridHeight_def Let_def sel
    by (simp add: rowLoop_m_grid split: sum.splits)
qed

lemma convertToAscii_result:
  "convertToAscii c img opts = Inr r \<Longrightarrow> asciiText c img opts = Inr (resultText r)"
  "convertToAscii_m c img opts = Inr r \<Longrightarrow> asciiText_m c img opts = Inr (resultText r)"
  by (auto simp: convertToAscii_def convertToAscii_m_def asciiText_def asciiText_m_def Let_def
      split: if_splits sum.splits prod.splits)

lemma textOf_result:
  "textOf (convertToAscii c img opts) = Inr t \<Longrightarrow> asciiText c img opts = Inr t"
  "textOf (convertToAscii_m c img opts) = Inr t \<Longrightarrow> asciiText_m c img opts = Inr t"
proof -
  show "asciiText c img opts = Inr t" if "textOf (convertToAscii c img opts) = Inr t"
  proof (cases "convertToAscii c img opts")
    case (Inl e)
    with that show ?thesis by (simp add: textOf_def)
  next
    case (Inr r)
    with that convertToAscii_result(1) [OF Inr] show ?thesis by (simp add: textOf_def)
  qed
  show "asciiText_m c img opts = Inr t" if "textOf (convertToAscii_m c img opts) = Inr t"
  proof (cases "convertToAscii_m c img opts")
    case (Inl e)
    with that show ?thesis by (simp add: textOf_def)
  next
    case (Inr r)
    with that convertToAscii_result(2) [OF Inr] show ?thesis by (simp add: textOf_def)
  qed
qed

lemma rendered_examples:
  "textOf (convertToAscii c whiteBlack opts) = asciiText c whiteBlack opts"
  "textOf (convertToAscii_m c whiteBlack opts) = asciiText_m c whiteBlack opts"
  "textOf (convertToAscii c redPixel opts) = asciiText c redPixel opts"
  "textOf (convertToAscii_m c redPixel opts) = asciiText_m c redPixel opts"
  by (auto simp: convertToAscii_def convertToAscii_m_def asciiText_def asciiText_m_def
      textOf_def whiteBlack_def redPixel_def Let_def split: sum.splits prod.splits)

lemma example_grid:
  "gridWidth False whiteBlack (defaults\<lparr>width := 2, charSet := CHAR_SETS_simple\<rparr>) = 2"
  "gridHeight False whiteBlack (defaults\<lparr>width := 2, charSet := CHAR_SETS_simple\<rparr>) = 1"
  by (simp_all add: gridWidth_def gridHeight_def mergedSettings_def confirmedWidth_def
      resolvedHeight_def effectiveWidth_def effectiveHeight_def defaults_def whiteBlack_def
      Math_round_def double_values Let_def)

lemma example_text:
  "textOf (convertToAscii False whiteBlack (defaults\<lparr>width := 2, charSet := CHAR_SETS_simple\<rparr>)) =
     Inr (ustr '' #'' @ newline)"
proof -
  have cd: "canvasData whiteBlack 2 1 = Inr [255, 255, 255, 255, 0, 0, 0, 255]"
    by (simp add: whiteBlack_def)
  have g: "cellGlyph CHAR_SETS_simple [255, 255, 255, 255, 0, 0, 0, 255] 0 = ustr '' ''"
    "cellGlyph CHAR_SETS_simple [255, 255, 255, 255, 0, 0, 0, 255] 4 = ustr ''#''"
    by (simp_all add: cellGlyph_def rd_def cellBrightness_examples charIndex_def charAt_def
        CHAR_SETS_simple_def ustr_def Math_floor_def)
  have "gridText (cellGlyph CHAR_SETS_simple [255, 255, 255, 255, 0, 0, 0, 255]) 2 1 =
      ustr '' #'' @ newline"
    by (simp add: gridText_def upto_rec1 g ustr_def)
  then show ?thesis
    unfolding rendered_examples asciiText_grid example_grid cd
    by (simp add: initColorMap_def selectChars_def defaults_def applyImageAdjustments_def
        applyLoop_identity identitySettings_def mergedSettings_def Let_def)
qed

lemma example_text_m:
  "textOf (convertToAscii_m False whiteBlack (defaults\<lparr>width := 2, charSet := CHAR_SETS_simple\<rparr>)) =
     Inr (ustr '' #'' @ newline)"
proof -
  have cd: "canvasData whiteBlack 2 1 = Inr [255, 255, 255, 255, 0, 0, 0, 255]"
    by (simp add: whiteBlack_def)
  have g: "cellGlyph_m (Chars CHAR_SETS_simple) [255, 255, 255, 255, 0, 0, 0, 255] 0 = ustr '' ''"
    "cellGlyph_m (Chars CHAR_SETS_simple) [255, 255, 255, 255, 0, 0, 0, 255] 4 = ustr ''#''"
    by (simp_all add: cellGlyph_m_def rd_def cellBrightness_m_def charIndex_m_def charAt_def
        CHAR_SETS_simple_def ustr_def byteVal_def Math_floor_def Let_def)
  have "gridText (cellGlyph_m (Chars CHAR_SETS_simple) [255, 255, 255, 255, 0, 0, 0, 255]) 2 1 =
      ustr '' #'' @ newline"
    by (simp add: gridText_def upto_rec1 g ustr_def)
  then show ?thesis
    unfolding rendered_examples asciiText_m_grid example_grid cd
    by (simp add: selectChars_m_def defaults_def CHAR_SETS_simple_def ustr_def
        applyImageAdjustments_m_def
        applyLoop_m_identity identitySettings_def mergedSettings_def Let_def)
qed

lemma charIndex_bounds:
  assumes "chars \<noteq> []" "0 \<le> L"
  shows "0 \<le> charIndex chars L \<and> charIndex chars L < int (length chars)"
proof -
  have n: "0 < length chars" using assms by simp
  have "0 \<le> real (length chars) * real_of_int L / 256" using assms by simp
  then have "0 \<le> \<lfloor>real (length chars) * real_of_int L / 256\<rfloor>" by simp
  then show ?thesis using n by (simp add: charIndex_def Math_floor_def)
qed

lemma charIndex_m_bounds:
  assumes "chars \<noteq> []" "0 \<le> M"
  shows "0 \<le> charIndex_m chars M \<and> charIndex_m chars M < int (length chars)"
proof -
  have n: "0 < length chars" using assms by simp
  have "0 \<le> M / 256 * real (length chars)" using assms by simp
  then have "0 \<le> \<lfloor>M / 256 * real (length chars)\<rfloor>" by simp
  then show ?thesis using n by (simp add: charIndex_m_def Math_floor_def Let_def)
qed

lemma charAt_index: "0 \<le> i \<Longrightarrow> i < int (length chars) \<Longrightarrow> charAt chars i = [chars ! nat i]"
  by (simp add: charAt_def)




section \<open>The text of a conversion\<close>

lemma applyLoop_cong:
  "adjustPixel s = adjustPixel s' \<Longrightarrow> applyLoop s i pixels = applyLoop s' i pixels"
proof (induction s i pixels rule: applyLoop.induct)
  case (1 s i pixels)
  show ?case
  proof (cases "i < length pixels")
    case True
    obtain r g b where adj:
      "adjustPixel s (byteVal (pixels ! i), byteVal (pixels ! (i + 1)),
         byteVal (pixels ! (i + 2))) = (r, g, b)"
      using prod_cases3 by blast
    have adj': "adjustPixel s' (byteVal (pixels ! i), byteVal (pixels ! (i + 1)),
         byteVal (pixels ! (i + 2))) = (r, g, b)"
      using adj "1.prems" by simp
    show ?thesis
      using "1.IH" [OF True adj [symmetric] refl "1.prems"] True adj adj'
      by (subst applyLoop.simps, subst (2) applyLoop.simps) simp
  next
    case False
    then show ?thesis by (subst applyLoop.simps, subst (2) applyLoop.simps) simp
  qed
qed

lemma applyLoop_m_cong:
  "adjustPixel_m s = adjustPixel_m s' \<Longrightarrow> applyLoop_m s i pixels = applyLoop_m s' i pixels"
proof (induction s i pixels rule: applyLoop_m.induct)
  case (1 s i pixels)
  show ?case
  proof (cases "i < length pixels")
    case True
    obtain r g b where adj:
      "adjustPixel_m s (byteVal (pixels ! i), byteVal (pixels ! (i + 1)),
         byteVal (pixels ! (i + 2))) = (r, g, b)"
      using prod_cases3 by blast
    have adj': "adjustPixel_m s' (byteVal (pixels ! i), byteVal (pixels ! (i + 1)),
         byteVal (pixels ! (i + 2))) = (r, g, b)"
      using adj "1.prems" by simp
    show ?thesis
      using "1.IH" [OF True adj [symmetric] refl "1.prems"] True adj adj'
      by (subst applyLoop_m.simps, subst (2) applyLoop_m.simps) simp
  next
    case False
    then show ?thesis by (subst applyLoop_m.simps, subst (2) applyLoop_m.simps) simp
  qed
qed

lemma sameAdjustments_pixels:
  assumes "sameAdjustments s s'"
  shows "applyImageAdjustments s pixels = applyImageAdjustments s' pixels"
    and "applyImageAdjustments_m s pixels = applyImageAdjustments_m s' pixels"
proof -
  have "adjustPixel s = adjustPixel s'"
    using assms
    by (intro ext)
      (simp add: sameAdjustments_def adjustPixel_def step_defs contrastFactor_def cong: if_cong)
  then show "applyImageAdjustments s pixels = applyImageAdjustments s' pixels"
    unfolding applyImageAdjustments_def by (rule applyLoop_cong)
  have "adjustPixel_m s = adjustPixel_m s'"
    using assms
    by (intro ext) (simp add: sameAdjustments_def adjustPixel_m_def step_m_defs cong: if_cong)
  then show "applyImageAdjustments_m s pixels = applyImageAdjustments_m s' pixels"
    unfolding applyImageAdjustments_m_def by (rule applyLoop_m_cong)
qed

lemma merged_colorized:
  "gridWidth c img (opts\<lparr>colorized := b\<rparr>) = gridWidth c img opts"
  "gridHeight c img (opts\<lparr>colorized := b\<rparr>) = gridHeight c img opts"
  "sameAdjustments (mergedSettings c img (opts\<lparr>colorized := b\<rparr>)) (mergedSettings c img opts)"
  "selectChars (opts\<lparr>colorized := b\<rparr>) = selectChars opts"
  "selectChars_m (opts\<lparr>colorized := b\<rparr>) = selectChars_m opts"
  by (simp_all add: gridWidth_def gridHeight_def mergedSettings_def confirmedWidth_def
      resolvedHeight_def effectiveWidth_def effectiveHeight_def sameAdjustments_def
      selectChars_def selectChars_m_def Let_def)

lemma text_colorized_m:
  "asciiText_m c img (opts\<lparr>colorized := b\<rparr>) = asciiText_m c img opts"
  unfolding asciiText_m_grid merged_colorized
    sameAdjustments_pixels(2) [OF merged_colorized(3)] ..

lemma text_colorized:
  assumes "validArrayLength (gridWidth c img opts)" "validArrayLength (gridHeight c img opts)"
  shows "asciiText c img (opts\<lparr>colorized := b\<rparr>) = asciiText c img (opts\<lparr>colorized := b'\<rparr>)"
proof -
  have "\<And>d. \<exists>cm. initColorMap d (gridWidth c img opts) (gridHeight c img opts) = Inr cm"
    using assms by (simp add: initColorMap_def)
  then show ?thesis
    unfolding asciiText_grid merged_colorized
      sameAdjustments_pixels(1) [OF merged_colorized(3)]
    by (auto split: sum.splits) (metis Inl_Inr_False)+
qed

lemma text_colorized_results:
  assumes "convertToAscii c img (opts\<lparr>colorized := b\<rparr>) = Inr r"
    "convertToAscii c img (opts\<lparr>colorized := b'\<rparr>) = Inr r'"
  shows "resultText r = resultText r'"
proof -
  have "asciiText c img (opts\<lparr>colorized := b\<rparr>) = Inr (resultText r)"
    "asciiText c img (opts\<lparr>colorized := b'\<rparr>) = Inr (resultText r')"
    using assms by (simp_all add: convertToAscii_result)
  then show ?thesis
    unfolding asciiText_grid merged_colorized
      sameAdjustments_pixels(1) [OF merged_colorized(3)]
    by (auto split: sum.splits)
qed

lemma text_colorized_results_m:
  assumes "convertToAscii_m c img (opts\<lparr>colorized := b\<rparr>) = Inr r"
    "convertToAscii_m c img (opts\<lparr>colorized := b'\<rparr>) = Inr r'"
  shows "resultText r = resultText r'"
proof -
  have "asciiText_m c img (opts\<lparr>colorized := b\<rparr>) = Inr (resultText r)"
    "asciiText_m c img (opts\<lparr>colorized := b'\<rparr>) = Inr (resultText r')"
    using assms by (simp_all add: convertToAscii_result)
  then show ?thesis unfolding text_colorized_m by simp
qed

text \<open>
  Claim C9. The text of a conversion does not depend on \<open>colorized\<close>. In both variants two
  runs that return a result, one with \<open>colorized = true\<close> and one with \<open>colorized = false\<close>,
  return the same text. The rendering that follows the loops reads the flag and the colour
  map, and so can throw in one run and not in the other; the outcome of the loops themselves,
  text or error, is the same in the module, and in the public script whenever both
  dimensions of the grid are lengths that an array can have; otherwise the colorized run
  cannot allocate its colour map.
\<close>

theorem text_same_for_colorized:
  assumes "modelled c img opts"
  shows
    "asciiText_m c img (opts\<lparr>colorized := True\<rparr>) =
       asciiText_m c img (opts\<lparr>colorized := False\<rparr>) \<and>
     (validArrayLength (gridWidth c img opts) \<and> validArrayLength (gridHeight c img opts) \<longrightarrow>
        asciiText c img (opts\<lparr>colorized := True\<rparr>) =
        asciiText c img (opts\<lparr>colorized := False\<rparr>)) \<and>
     (convertToAscii c img (opts\<lparr>colorized := True\<rparr>) = Inr rt \<and>
      convertToAscii c img (opts\<lparr>colorized := False\<rparr>) = Inr rf \<longrightarrow>
        resultText rt = resultText rf) \<and>
     (convertToAscii_m c img (opts\<lparr>colorized := True\<rparr>) = Inr mt \<and>
      convertToAscii_m c img (opts\<lparr>colorized := False\<rparr>) = Inr mf \<longrightarrow>
        resultText mt = resultText mf)"
  using text_colorized_m [where c = c and img = img and opts = opts]
    text_colorized [where c = c and img = img and opts = opts and b = True and b' = False]
    text_colorized_results [where c = c and img = img and opts = opts and b = True and
      b' = False and r = rt and r' = rf]
    text_colorized_results_m [where c = c and img = img and opts = opts and b = True and
      b' = False and r = mt and r' = mf]
  by simp

theorem text_same_for_colorized_witness:
  "textOf (convertToAscii False whiteBlack
     (defaults\<lparr>width := 2, charSet := CHAR_SETS_simple, colorized := True\<rparr>)) =
     Inr (ustr '' #'' @ newline) \<and>
   textOf (convertToAscii_m False whiteBlack
     (defaults\<lparr>width := 2, charSet := CHAR_SETS_simple, colorized := True\<rparr>)) =
     Inr (ustr '' #'' @ newline)"
proof -
  let ?S = "defaults\<lparr>width := 2, charSet := CHAR_SETS_simple\<rparr>"
  have f: "?S\<lparr>colorized := False\<rparr> = ?S" by (simp add: defaults_def)
  have g: "validArrayLength (gridWidth False whiteBlack ?S) \<and>
      validArrayLength (gridHeight False whiteBlack ?S)"
    by (simp add: example_grid validArrayLength_def)
  have m: "modelled False whiteBlack ?S"
    unfolding modelled_def example_grid
    by (simp add: whiteBlack_def defaults_def)
  from text_same_for_colorized [OF m] g
  have "asciiText_m False whiteBlack (?S\<lparr>colorized := True\<rparr>) =
      asciiText_m False whiteBlack (?S\<lparr>colorized := False\<rparr>)"
    "asciiText False whiteBlack (?S\<lparr>colorized := True\<rparr>) =
      asciiText False whiteBlack (?S\<lparr>colorized := False\<rparr>)"
    by blast+
  then show ?thesis
    unfolding f rendered_examples
    using example_text example_text_m unfolding rendered_examples by simp
qed

lemma cell_in_range:
  assumes "0 \<le> x" "x < ew" "0 \<le> y" "y < eh" "length px = nat (4 * \<bar>ew\<bar> * \<bar>eh\<bar>)"
  shows "nat ((y * ew + x) * 4) + 2 < length px"
proof -
  have pos: "\<bar>ew\<bar> = ew" "\<bar>eh\<bar> = eh" using assms by simp_all
  have "y * ew \<le> (eh - 1) * ew" using assms by (intro mult_right_mono) simp_all
  then have "y * ew + x \<le> eh * ew - 1" using assms by (simp add: algebra_simps)
  then have "(y * ew + x) * 4 + 2 < 4 * ew * eh" by (simp add: algebra_simps)
  moreover have "0 \<le> (y * ew + x) * 4" using assms by simp
  ultimately show ?thesis using assms(5) unfolding pos by linarith
qed

lemma set_gridText:
  assumes "\<And>x y. 0 \<le> x \<Longrightarrow> x < ew \<Longrightarrow> 0 \<le> y \<Longrightarrow> y < eh \<Longrightarrow>
    set (cell (nat ((y * ew + x) * 4))) \<subseteq> A"
  shows "set (gridText cell ew eh) \<subseteq> A \<union> set newline"
proof
  fix ch assume "ch \<in> set (gridText cell ew eh)"
  then have "\<exists>y\<in>set [0..eh - 1].
      ch \<in> set (concat (map (\<lambda>x. cell (nat ((y * ew + x) * 4))) [0..ew - 1]) @ newline)"
    unfolding gridText_def set_concat set_map by blast
  then obtain y where y: "y \<in> set [0..eh - 1]"
    and ch: "ch \<in> set (concat (map (\<lambda>x. cell (nat ((y * ew + x) * 4))) [0..ew - 1])) \<union>
      set newline"
    unfolding set_append by blast
  show "ch \<in> A \<union> set newline"
  proof (cases "ch \<in> set newline")
    case True
    then show ?thesis by simp
  next
    case False
    with ch have "\<exists>x\<in>set [0..ew - 1]. ch \<in> set (cell (nat ((y * ew + x) * 4)))"
      unfolding set_concat set_map by blast
    then obtain x where x: "x \<in> set [0..ew - 1]"
      and c: "ch \<in> set (cell (nat ((y * ew + x) * 4)))"
      by blast
    have "0 \<le> x" "x < ew" "0 \<le> y" "y < eh" using x y by simp_all
    from assms [OF this] c show ?thesis by blast
  qed
qed

lemma Math_round_nonneg: "0 \<le> x \<Longrightarrow> 0 \<le> Math_round x"
  by (simp add: Math_round_def)

lemma cellGlyph_read:
  assumes "idx + 2 < length pixels"
  shows "cellGlyph chars pixels idx =
      charAt chars (charIndex chars (cellBrightness (pixels ! idx) (pixels ! (idx + 1))
        (pixels ! (idx + 2))))"
    and "cellGlyph_m (Chars chars) pixels idx =
      charAt chars (charIndex_m chars (cellBrightness_m (pixels ! idx) (pixels ! (idx + 1))
        (pixels ! (idx + 2))))"
  using assms by (simp_all add: cellGlyph_def cellGlyph_m_def rd_def)

lemma cellGlyph_in_chars:
  assumes "chars \<noteq> []" "idx + 2 < length pixels"
  shows "set (cellGlyph chars pixels idx) \<subseteq> set chars"
    and "set (cellGlyph_m (Chars chars) pixels idx) \<subseteq> set chars"
proof -
  let ?r = "pixels ! idx" and ?g = "pixels ! (idx + 1)" and ?b = "pixels ! (idx + 2)"
  have nn: "0 \<le> byteVal ?r" "0 \<le> byteVal ?g" "0 \<le> byteVal ?b"
    using byteVal_range by simp_all
  have "0 \<le> cellBrightness ?r ?g ?b"
    unfolding cellBrightness_def using nn
    by (intro Math_round_nonneg double_nonneg add_nonneg_nonneg mult_nonneg_nonneg) simp_all
  from charIndex_bounds [OF assms(1) this]
  show "set (cellGlyph chars pixels idx) \<subseteq> set chars"
    unfolding cellGlyph_read(1) [OF assms(2)] by (simp add: charAt_index nat_less_iff)
  have "0 \<le> cellBrightness_m ?r ?g ?b"
    unfolding cellBrightness_m_def using nn by simp
  from charIndex_m_bounds [OF assms(1) this]
  show "set (cellGlyph_m (Chars chars) pixels idx) \<subseteq> set chars"
    unfolding cellGlyph_read(2) [OF assms(2)] by (simp add: charAt_index nat_less_iff)
qed

lemma merged_charSet:
  "gridWidth c img (opts\<lparr>charSet := cs, charSetType := ct\<rparr>) = gridWidth c img opts"
  "gridHeight c img (opts\<lparr>charSet := cs, charSetType := ct\<rparr>) = gridHeight c img opts"
  "sameAdjustments (mergedSettings c img (opts\<lparr>charSet := cs, charSetType := ct\<rparr>))
     (mergedSettings c img opts)"
  "mergedSettings c img (opts\<lparr>charSet := cs, charSetType := ct\<rparr>) =
     (mergedSettings c img opts)\<lparr>charSet := cs, charSetType := ct\<rparr>"
  by (simp_all add: gridWidth_def gridHeight_def mergedSettings_def confirmedWidth_def
      resolvedHeight_def effectiveWidth_def effectiveHeight_def sameAdjustments_def Let_def)

lemma custom_ignores_named:
  assumes "customChars opts \<noteq> []"
  shows "convertToAscii c img (opts\<lparr>charSet := cs, charSetType := ct\<rparr>) = convertToAscii c img opts"
    and "convertToAscii_m c img (opts\<lparr>charSet := cs, charSetType := ct\<rparr>) =
      convertToAscii_m c img opts"
proof -
  let ?o = "opts\<lparr>charSet := cs, charSetType := ct\<rparr>"
  have cc: "customChars (mergedSettings c img opts) = customChars opts"
    by (simp add: mergedSettings_def Let_def)
  have w: "effectiveWidth (mergedSettings c img ?o) = effectiveWidth (mergedSettings c img opts)"
    "effectiveHeight (mergedSettings c img ?o) = effectiveHeight (mergedSettings c img opts)"
    using merged_charSet(1,2) [where c = c and img = img and cs = cs and ct = ct and opts = opts]
    by (simp_all add: gridWidth_def gridHeight_def)
  have s: "selectChars (mergedSettings c img ?o) = selectChars (mergedSettings c img opts)"
    "selectChars_m (mergedSettings c img ?o) = selectChars_m (mergedSettings c img opts)"
    "colorized (mergedSettings c img ?o) = colorized (mergedSettings c img opts)"
    using assms cc by (simp_all add: merged_charSet(4) selectChars_def selectChars_m_def)
  note p = sameAdjustments_pixels
    [OF merged_charSet(3) [where c = c and img = img and cs = cs and ct = ct and opts = opts]]
  have g: "asciiGrid c img ?o = asciiGrid c img opts"
    unfolding asciiGrid_def Let_def w s p ..
  have g_m: "asciiGrid_m c img ?o = asciiGrid_m c img opts"
    unfolding asciiGrid_m_def Let_def w s p ..
  have r: "width (mergedSettings c img ?o) = width (mergedSettings c img opts)"
    "height (mergedSettings c img ?o) = height (mergedSettings c img opts)"
    by (simp_all add: merged_charSet(4))
  show "convertToAscii c img ?o = convertToAscii c img opts"
    unfolding convertToAscii_def g s(3) ..
  show "convertToAscii_m c img ?o = convertToAscii_m c img opts"
    unfolding convertToAscii_m_def Let_def g_m s(3) r ..
qed

lemma CHAR_SETS_nonempty: "CHAR_SETS k = Some (Chars cs) \<Longrightarrow> cs \<noteq> []"
  by (auto simp: CHAR_SETS_def CHAR_SETS_standard_def CHAR_SETS_extended_def
      CHAR_SETS_blocks_def CHAR_SETS_simple_def ustr_def split: if_splits)


lemma selectChars_m_nonempty: "selectChars_m opts \<noteq> Chars []"
  by (auto simp: selectChars_m_def CHAR_SETS_standard_def split: option.splits ramp.splits)

text \<open>
  Claim C6. When \<open>customChars\<close> is not empty it is the ramp: every character of the text of
  a conversion, the newline that ends each row apart, is a character of \<open>customChars\<close>, and
  the conversion gives the same outcome whatever \<open>charSet\<close> (and, in the module,
  \<open>charSetType\<close>) is. When \<open>customChars\<close> is empty the ramp is the named one: \<open>charSet\<close> in the
  public script; in the module the property of \<^verbatim>\<open>CHAR_SETS\<close> named by \<open>charSetType\<close>, else
  \<open>charSet\<close>, with the standard ramp for a name that is no property or a ramp that is empty.
\<close>

theorem custom_ramp_precedence:
  assumes "customChars opts \<noteq> []" "modelled c img opts"
  shows
    "(case textOf (convertToAscii c img opts) of
        Inl e \<Rightarrow> True
      | Inr t \<Rightarrow> set t \<subseteq> set (customChars opts) \<union> set newline) \<and>
     (case textOf (convertToAscii_m c img opts) of
        Inl e \<Rightarrow> True
      | Inr t \<Rightarrow> set t \<subseteq> set (customChars opts) \<union> set newline) \<and>
     convertToAscii c img (opts\<lparr>charSet := cs, charSetType := ct\<rparr>) = convertToAscii c img opts \<and>
     convertToAscii_m c img (opts\<lparr>charSet := cs, charSetType := ct\<rparr>) =
       convertToAscii_m c img opts \<and>
     selectChars opts = customChars opts \<and> selectChars_m opts = Chars (customChars opts) \<and>
     selectChars (opts\<lparr>customChars := []\<rparr>) = charSet opts \<and>
     selectChars_m (opts\<lparr>customChars := []\<rparr>) =
       (if charSetType opts \<noteq> [] then
          (case CHAR_SETS (charSetType opts) of
             Some named \<Rightarrow> named
           | None \<Rightarrow> Chars CHAR_SETS_standard)
        else if charSet opts \<noteq> [] then Chars (charSet opts) else Chars CHAR_SETS_standard)"
proof -
  let ?gw = "gridWidth c img opts" and ?gh = "gridHeight c img opts"
  let ?st = "mergedSettings c img opts"
  have sel: "selectChars opts = customChars opts" "selectChars_m opts = Chars (customChars opts)"
    using assms(1) by (simp_all add: selectChars_def selectChars_m_def)
  have 12: "(case textOf (convertToAscii c img opts) of
        Inl e \<Rightarrow> True
      | Inr t \<Rightarrow> set t \<subseteq> set (customChars opts) \<union> set newline) \<and>
     (case textOf (convertToAscii_m c img opts) of
        Inl e \<Rightarrow> True
      | Inr t \<Rightarrow> set t \<subseteq> set (customChars opts) \<union> set newline)"
  proof (cases "canvasData img ?gw ?gh")
    case (Inl e)
    have "asciiText c img opts = Inl e" "asciiText_m c img opts = Inl e"
      unfolding asciiText_grid asciiText_m_grid Inl by simp_all
    then show ?thesis
      using textOf_result [of c img opts] by (auto split: sum.splits)
  next
    case (Inr px)
    have l: "length px = nat (4 * \<bar>?gw\<bar> * \<bar>?gh\<bar>)"
      using assms(2) by (simp add: modelled_def Inr)
    have len: "length (applyImageAdjustments ?st px) = nat (4 * \<bar>?gw\<bar> * \<bar>?gh\<bar>)"
      "length (applyImageAdjustments_m ?st px) = nat (4 * \<bar>?gw\<bar> * \<bar>?gh\<bar>)"
      using l by (simp_all add: applyImageAdjustments_def applyImageAdjustments_m_def)
    have a: "set (gridText (cellGlyph (customChars opts) (applyImageAdjustments ?st px)) ?gw ?gh)
        \<subseteq> set (customChars opts) \<union> set newline"
      by (intro set_gridText cellGlyph_in_chars(1) [OF assms(1)]
          cell_in_range [OF _ _ _ _ len(1)])
    have b: "set (gridText (cellGlyph_m (Chars (customChars opts))
          (applyImageAdjustments_m ?st px)) ?gw ?gh)
        \<subseteq> set (customChars opts) \<union> set newline"
      by (intro set_gridText cellGlyph_in_chars(2) [OF assms(1)]
          cell_in_range [OF _ _ _ _ len(2)])
    have t: "asciiText c img opts = Inr t \<Longrightarrow> set t \<subseteq> set (customChars opts) \<union> set newline"
      "asciiText_m c img opts = Inr t \<Longrightarrow> set t \<subseteq> set (customChars opts) \<union> set newline" for t
      unfolding asciiText_grid asciiText_m_grid Inr sel using a b
      by (auto split: sum.splits)
    show ?thesis
      using textOf_result [of c img opts] t by (auto split: sum.splits)
  qed
  have 3: "selectChars (opts\<lparr>customChars := []\<rparr>) = charSet opts"
    by (simp add: selectChars_def)
  have 4: "selectChars_m (opts\<lparr>customChars := []\<rparr>) =
       (if charSetType opts \<noteq> [] then
          (case CHAR_SETS (charSetType opts) of
             Some named \<Rightarrow> named
           | None \<Rightarrow> Chars CHAR_SETS_standard)
        else if charSet opts \<noteq> [] then Chars (charSet opts) else Chars CHAR_SETS_standard)"
    by (auto simp: selectChars_m_def dest: CHAR_SETS_nonempty split: option.splits ramp.splits)
  show ?thesis
    using 12 3 4 sel
      custom_ignores_named [OF assms(1), where c = c and img = img and cs = cs and ct = ct]
    by simp
qed

lemma whiteBlack_grid:
  assumes "width opts = 2" "height opts = 0" "stretchWidth opts = 100" "stretchHeight opts = 100"
  shows "gridWidth c whiteBlack opts = 2" "gridHeight c whiteBlack opts = 1"
  using assms
  by (simp_all add: gridWidth_def gridHeight_def mergedSettings_def confirmedWidth_def
      resolvedHeight_def effectiveWidth_def effectiveHeight_def whiteBlack_def
      Math_round_def double_values Let_def)

lemma redPixel_grid:
  assumes "width opts = 1" "height opts = 0" "stretchWidth opts = 100" "stretchHeight opts = 100"
  shows "gridWidth c redPixel opts = 1" "gridHeight c redPixel opts = 1"
  using assms
  by (simp_all add: gridWidth_def gridHeight_def mergedSettings_def confirmedWidth_def
      resolvedHeight_def effectiveWidth_def effectiveHeight_def redPixel_def
      Math_round_def double_values Let_def)

lemma canvas_examples:
  "canvasData whiteBlack 2 1 = Inr [255, 255, 255, 255, 0, 0, 0, 255]"
  "canvasData redPixel 1 1 = Inr [255, 0, 0, 255]"
  by (simp_all add: whiteBlack_def redPixel_def)

lemma identity_merged:
  "identitySettings opts \<Longrightarrow> identitySettings (mergedSettings c img opts)"
  by (simp add: identitySettings_def mergedSettings_def Let_def)

lemma identity_defaults:
  "identitySettings (defaults\<lparr>width := w, charSet := cs\<rparr>)"
  "identitySettings (defaults\<lparr>width := w, charSet := cs, customChars := cc\<rparr>)"
  by (simp_all add: identitySettings_def defaults_def)

lemma grid_2_1: "gridText cell 2 1 = cell 0 @ cell 4 @ newline"
  by (simp add: gridText_def upto_rec1)

lemma grid_1_1: "gridText cell 1 1 = cell 0 @ newline"
  by (simp add: gridText_def upto_rec1)

lemma modelled_examples:
  assumes "width opts = w" "height opts = 0" "stretchWidth opts = 100" "stretchHeight opts = 100"
    "contrast opts = 100"
  shows "w = 2 \<Longrightarrow> modelled c whiteBlack opts" "w = 1 \<Longrightarrow> modelled c redPixel opts"
proof -
  show "modelled c whiteBlack opts" if "w = 2"
    unfolding modelled_def whiteBlack_grid [OF assms(1) [unfolded that] assms(2-4)]
    using assms(5) by (simp add: whiteBlack_def)
  show "modelled c redPixel opts" if "w = 1"
    unfolding modelled_def redPixel_grid [OF assms(1) [unfolded that] assms(2-4)]
    using assms(5) by (simp add: redPixel_def)
qed

theorem custom_ramp_precedence_witness:
  "textOf (convertToAscii False whiteBlack
     (defaults\<lparr>width := 2, charSet := CHAR_SETS_blocks, customChars := ustr ''AB''\<rparr>)) =
     Inr (ustr ''BA'' @ newline) \<and>
   (case textOf (convertToAscii False whiteBlack
       (defaults\<lparr>width := 2, charSet := CHAR_SETS_blocks, customChars := ustr ''AB''\<rparr>)) of
      Inl e \<Rightarrow> True
    | Inr t \<Rightarrow> set t \<subseteq> set (ustr ''AB'') \<union> set newline)"
proof -
  let ?S = "defaults\<lparr>width := 2, charSet := CHAR_SETS_blocks, customChars := ustr ''AB''\<rparr>"
  have s: "width ?S = 2" "height ?S = 0" "stretchWidth ?S = 100" "stretchHeight ?S = 100"
    "customChars ?S = ustr ''AB''" "colorized ?S = False" "selectChars ?S = ustr ''AB''"
    "contrast ?S = 100"
    by (simp_all add: defaults_def selectChars_def ustr_def)
  note g = whiteBlack_grid [OF s(1-4), of False]
  have ne: "customChars ?S \<noteq> []" by (simp add: s(5) ustr_def)
  have m: "modelled False whiteBlack ?S"
    by (rule modelled_examples(1) [OF s(1-4) s(8) refl])
  have adj: "applyImageAdjustments (mergedSettings False whiteBlack ?S) px = px" for px
    unfolding applyImageAdjustments_def
    by (intro applyLoop_identity identity_merged identity_defaults)
  have gl: "cellGlyph [65, 66] [255, 255, 255, 255, 0, 0, 0, 255] 0 = [66]"
    "cellGlyph [65, 66] [255, 255, 255, 255, 0, 0, 0, 255] 4 = [65]"
    by (simp_all add: cellGlyph_def rd_def cellBrightness_examples charIndex_def charAt_def
        Math_floor_def)
  have t: "textOf (convertToAscii False whiteBlack ?S) = Inr (ustr ''BA'' @ newline)"
    unfolding rendered_examples asciiText_grid g canvas_examples s(6,7) adj grid_2_1
    by (simp add: initColorMap_def ustr_def gl)
  from custom_ramp_precedence [OF ne m]
  have "(case textOf (convertToAscii False whiteBlack ?S) of
      Inl e \<Rightarrow> True
    | Inr t \<Rightarrow> set t \<subseteq> set (customChars ?S) \<union> set newline)"
    by blast
  then show ?thesis unfolding s(5) using t by blast
qed

lemma charAt_empty: "charAt [] i = undefinedText"
  by (auto simp: charAt_def)

lemma cellGlyph_empty: "cellGlyph [] pixels idx = undefinedText"
  by (simp add: cellGlyph_def charAt_empty split: option.splits)






text \<open>
  The public script has no such fallback. With \<open>customChars\<close> and \<open>charSet\<close> both empty every
  read of the ramp is \<^verbatim>\<open>undefined\<close>: for an image of one pixel the text returned is
  \<^verbatim>\<open>undefined\<close> and a newline.
\<close>

lemma empty_ramp_public_script:
  "textOf (convertToAscii False redPixel (defaults\<lparr>width := 1, charSet := []\<rparr>)) =
     Inr (ustr ''undefined'' @ newline)"
proof -
  let ?S = "defaults\<lparr>width := 1, charSet := []\<rparr>"
  have s: "width ?S = 1" "height ?S = 0" "stretchWidth ?S = 100" "stretchHeight ?S = 100"
    "colorized ?S = False" "selectChars ?S = []"
    by (simp_all add: defaults_def selectChars_def)
  note g = redPixel_grid [OF s(1-4), of False]
  have adj: "applyImageAdjustments (mergedSettings False redPixel ?S) px = px" for px
    unfolding applyImageAdjustments_def
    by (intro applyLoop_identity identity_merged identity_defaults)
  have gl: "cellGlyph [] [255, 0, 0, 255] 0 = undefinedText"
    by (rule cellGlyph_empty)
  show ?thesis
    unfolding rendered_examples asciiText_grid g canvas_examples s(5,6) adj grid_1_1
    by (simp add: initColorMap_def gl undefinedText_def)
qed

text \<open>
  Claim C1, as amended. The text of a result is the grid of the glyphs of the cells, each
  cell read from the adjusted buffer at index \<open>(y * ew + x) * 4\<close>. In the public script the
  brightness that selects the glyph of a cell is
  \<^verbatim>\<open>Math.round(0.299 * r + 0.587 * g + 0.114 * b)\<close> of the three bytes read there, the weighted
  sum computed in doubles: an integer that differs from the exact weighted sum by a half at
  most, but for the rounding of the doubles, which is below \<open>2 powi - 40\<close>. In the module the
  brightness is the mean \<open>(r + g + b) / 3\<close> of the three bytes.
\<close>

theorem cell_brightness:
  assumes "idx + 2 < length pixels" "modelled c img opts"
  shows
    "cellGlyph chars pixels idx =
       charAt chars (charIndex chars (Math_round
         (double (double (double (double 0.299 * byteVal (pixels ! idx)) +
            double (double 0.587 * byteVal (pixels ! (idx + 1)))) +
            double (double 0.114 * byteVal (pixels ! (idx + 2))))))) \<and>
     \<bar>real_of_int (cellBrightness (pixels ! idx) (pixels ! (idx + 1)) (pixels ! (idx + 2))) -
        (0.299 * byteVal (pixels ! idx) + 0.587 * byteVal (pixels ! (idx + 1)) +
         0.114 * byteVal (pixels ! (idx + 2)))\<bar> \<le> 1 / 2 + 1 / 2 ^ 40 \<and>
     cellGlyph_m (Chars chars) pixels idx =
       charAt chars (charIndex_m chars
         ((byteVal (pixels ! idx) + byteVal (pixels ! (idx + 1)) +
           byteVal (pixels ! (idx + 2))) / 3)) \<and>
     (convertToAscii c img opts = Inr r \<and>
      canvasData img (gridWidth c img opts) (gridHeight c img opts) = Inr px \<longrightarrow>
        resultText r =
          gridText (cellGlyph (selectChars opts)
            (applyImageAdjustments (mergedSettings c img opts) px))
          (gridWidth c img opts) (gridHeight c img opts)) \<and>
     (convertToAscii_m c img opts = Inr r_m \<and>
      canvasData img (gridWidth c img opts) (gridHeight c img opts) = Inr px \<longrightarrow>
        resultText r_m =
          gridText (cellGlyph_m (selectChars_m opts)
            (applyImageAdjustments_m (mergedSettings c img opts) px))
          (gridWidth c img opts) (gridHeight c img opts))"
proof -
  let ?gw = "gridWidth c img opts" and ?gh = "gridHeight c img opts"
  have 1: "resultText r =
      gridText (cellGlyph (selectChars opts)
        (applyImageAdjustments (mergedSettings c img opts) px)) ?gw ?gh"
    if "convertToAscii c img opts = Inr r" "canvasData img ?gw ?gh = Inr px"
    using convertToAscii_result(1) [OF that(1)] unfolding asciiText_grid that(2)
    by (simp split: sum.splits)
  have 2: "resultText r_m =
      gridText (cellGlyph_m (selectChars_m opts)
        (applyImageAdjustments_m (mergedSettings c img opts) px)) ?gw ?gh"
    if "convertToAscii_m c img opts = Inr r_m" "canvasData img ?gw ?gh = Inr px"
    using convertToAscii_result(2) [OF that(1)] unfolding asciiText_m_grid that(2) by simp
  have 3: "cellGlyph chars pixels idx =
       charAt chars (charIndex chars (Math_round
         (double (double (double (double 0.299 * byteVal (pixels ! idx)) +
            double (double 0.587 * byteVal (pixels ! (idx + 1)))) +
            double (double 0.114 * byteVal (pixels ! (idx + 2)))))))"
    "cellGlyph_m (Chars chars) pixels idx =
       charAt chars (charIndex_m chars
         ((byteVal (pixels ! idx) + byteVal (pixels ! (idx + 1)) +
           byteVal (pixels ! (idx + 2))) / 3))"
    using cellGlyph_read [OF assms(1), of chars]
    by (simp_all add: cellBrightness_def cellBrightness_m_def)
  show ?thesis
    using 1 2 3 cellBrightness_weighted [of "pixels ! idx" "pixels ! (idx + 1)" "pixels ! (idx + 2)"]
    by blast
qed

theorem cell_brightness_witness:
  "cellGlyph CHAR_SETS_extended [255, 0, 0, 255] 0 = ustr ''#'' \<and>
   cellGlyph_m (Chars CHAR_SETS_extended) [255, 0, 0, 255] 0 = ustr ''*''"
proof -
  have l: "0 + 2 < length [255, 0, 0, 255 :: 8 word]" by simp
  have n: "[255, 0, 0, 255 :: 8 word] ! 0 = 255" "[255, 0, 0, 255 :: 8 word] ! (0 + 1) = 0"
    "[255, 0, 0, 255 :: 8 word] ! (0 + 2) = 0"
    by simp_all
  have s: "width defaults = 100" "height defaults = 0" "stretchWidth defaults = 100"
    "stretchHeight defaults = 100" "contrast defaults = 100"
    by (simp_all add: defaults_def)
  have m: "modelled False redPixel (defaults\<lparr>width := 1\<rparr>)"
    by (rule modelled_examples(2) [where w = 1]) (simp_all add: s)
  have v: "byteVal 255 = 255" "byteVal 0 = 0" by (simp_all add: byteVal_def)
  have b: "Math_round
      (double (double (double (double 0.299 * 255) + double (double 0.587 * 0)) +
         double (double 0.114 * 0))) = 76"
    using cellBrightness_examples(3) by (simp add: cellBrightness_def v)
  from cell_brightness [OF l m, of CHAR_SETS_extended]
  have "cellGlyph CHAR_SETS_extended [255, 0, 0, 255] 0 =
       charAt CHAR_SETS_extended (charIndex CHAR_SETS_extended (Math_round
         (double (double (double (double 0.299 * byteVal ([255, 0, 0, 255] ! 0)) +
            double (double 0.587 * byteVal ([255, 0, 0, 255] ! (0 + 1)))) +
            double (double 0.114 * byteVal ([255, 0, 0, 255] ! (0 + 2)))))))"
    "cellGlyph_m (Chars CHAR_SETS_extended) [255, 0, 0, 255] 0 =
       charAt CHAR_SETS_extended (charIndex_m CHAR_SETS_extended
         ((byteVal ([255, 0, 0, 255] ! 0) + byteVal ([255, 0, 0, 255] ! (0 + 1)) +
           byteVal ([255, 0, 0, 255] ! (0 + 2))) / 3))"
    by blast+
  then have "cellGlyph CHAR_SETS_extended [255, 0, 0, 255] 0 =
      charAt CHAR_SETS_extended (charIndex CHAR_SETS_extended 76)"
    "cellGlyph_m (Chars CHAR_SETS_extended) [255, 0, 0, 255] 0 =
       charAt CHAR_SETS_extended (charIndex_m CHAR_SETS_extended ((255 + 0 + 0) / 3))"
    unfolding n v b by simp_all
  then show ?thesis
    by (simp add: charAt_def charIndex_def charIndex_m_def CHAR_SETS_extended_def ustr_def
        Math_floor_def Let_def)
qed

text \<open>
  The module does not use the weighted formula: for a red pixel and the extended ramp it
  emits \<^verbatim>\<open>*\<close>, and the weighted luminance of the pixel selects \<^verbatim>\<open>#\<close>.
\<close>

theorem mean_brightness_counterexample:
  "textOf (convertToAscii_m False redPixel
     (defaults\<lparr>width := 1, charSet := CHAR_SETS_extended\<rparr>)) = Inr (ustr ''*'' @ newline) \<and>
   charAt CHAR_SETS_extended (charIndex_m CHAR_SETS_extended
     (0.299 * byteVal 255 + 0.587 * byteVal 0 + 0.114 * byteVal 0)) = ustr ''#'' \<and>
   cellGlyph_m (Chars CHAR_SETS_extended) [255, 0, 0, 255] 0 \<noteq>
     charAt CHAR_SETS_extended (charIndex_m CHAR_SETS_extended
       (0.299 * byteVal 255 + 0.587 * byteVal 0 + 0.114 * byteVal 0))"
proof -
  let ?S = "defaults\<lparr>width := 1, charSet := CHAR_SETS_extended\<rparr>"
  have s: "width ?S = 1" "height ?S = 0" "stretchWidth ?S = 100" "stretchHeight ?S = 100"
    "selectChars_m ?S = Chars CHAR_SETS_extended"
    by (simp_all add: defaults_def selectChars_m_def CHAR_SETS_extended_def ustr_def)
  note g = redPixel_grid [OF s(1-4), of False]
  have adj: "applyImageAdjustments_m (mergedSettings False redPixel ?S) px = px" for px
    unfolding applyImageAdjustments_m_def
    by (intro applyLoop_m_identity identity_merged identity_defaults)
  have gl: "cellGlyph_m (Chars CHAR_SETS_extended) [255, 0, 0, 255] 0 = ustr ''*''"
    by (simp add: cellGlyph_m_def rd_def cellBrightness_m_def charIndex_m_def charAt_def
        CHAR_SETS_extended_def ustr_def byteVal_def Math_floor_def Let_def)
  have w: "charAt CHAR_SETS_extended (charIndex_m CHAR_SETS_extended
     (0.299 * byteVal 255 + 0.587 * byteVal 0 + 0.114 * byteVal 0)) = ustr ''#''"
    by (simp add: charIndex_m_def charAt_def CHAR_SETS_extended_def ustr_def byteVal_def
        Math_floor_def Let_def)
  have t: "textOf (convertToAscii_m False redPixel ?S) = Inr (ustr ''*'' @ newline)"
    unfolding rendered_examples asciiText_m_grid g canvas_examples s(5) adj grid_1_1
    by (simp add: gl)
  show ?thesis
    unfolding t w gl by (simp add: ustr_def)
qed

end
